theory Spec2Isabelle
  imports Complex_Main "HOL-Library.Sublist"
begin

section \<open>Python strings\<close>

text \<open>
  A Python \<^verbatim>\<open>str\<close> is a sequence of Unicode code points, and \<^verbatim>\<open>len\<close> counts code
  points. A code point is a natural number here, so that the bullet glyphs U+2022 and
  U+25CF of the source are single characters. ASCII literals are written
  \<open>py ''...''\<close>.
\<close>

type_synonym codepoint = nat
type_synonym str = "codepoint list"

definition py :: "string \<Rightarrow> str" where
  "py s = map of_char s"

text \<open>
  The character classes of ASCII are fixed; those of the code points from 128 on come
  from the interpreter's Unicode tables, which are taken as a parameter. The lower-case
  mapping of a code point may depend on its context (the capital sigma does), so it
  receives the text before and after the character.
\<close>

record unicode_db =
  db_isalpha :: "codepoint \<Rightarrow> bool"
  db_isupper :: "codepoint \<Rightarrow> bool"
  db_islower :: "codepoint \<Rightarrow> bool"
  db_cased :: "codepoint \<Rightarrow> bool"
  db_tolower :: "str \<Rightarrow> codepoint \<Rightarrow> str \<Rightarrow> str"
  db_totitle :: "codepoint \<Rightarrow> str"

definition is_AZ :: "codepoint \<Rightarrow> bool" where
  "is_AZ c \<longleftrightarrow> 65 \<le> c \<and> c \<le> 90"

definition is_az :: "codepoint \<Rightarrow> bool" where
  "is_az c \<longleftrightarrow> 97 \<le> c \<and> c \<le> 122"

definition is_09 :: "codepoint \<Rightarrow> bool" where
  "is_09 c \<longleftrightarrow> 48 \<le> c \<and> c \<le> 57"

text \<open>
  \<^verbatim>\<open>str.isspace\<close>, which is also the class \<^verbatim>\<open>\s\<close> of \<^verbatim>\<open>re\<close> on a \<^verbatim>\<open>str\<close> pattern and
  what \<^verbatim>\<open>strip()\<close> and \<^verbatim>\<open>split()\<close> remove: the 29 white-space code points of Unicode.
\<close>

definition whitespace_ranges :: "(codepoint \<times> codepoint) list" where
  "whitespace_ranges =
     [(9, 13), (28, 32), (133, 133), (160, 160), (5760, 5760), (8192, 8202),
      (8232, 8233), (8239, 8239), (8287, 8287), (12288, 12288)]"

definition isspace :: "codepoint \<Rightarrow> bool" where
  "isspace c \<longleftrightarrow> list_ex (\<lambda>(lo, hi). lo \<le> c \<and> c \<le> hi) whitespace_ranges"

definition isalpha :: "unicode_db \<Rightarrow> codepoint \<Rightarrow> bool" where
  "isalpha U c = (if c < 128 then is_AZ c \<or> is_az c else db_isalpha U c)"

definition isupper :: "unicode_db \<Rightarrow> codepoint \<Rightarrow> bool" where
  "isupper U c = (if c < 128 then is_AZ c else db_isupper U c)"

definition islower :: "unicode_db \<Rightarrow> codepoint \<Rightarrow> bool" where
  "islower U c = (if c < 128 then is_az c else db_islower U c)"

definition cased :: "unicode_db \<Rightarrow> codepoint \<Rightarrow> bool" where
  "cased U c = (if c < 128 then is_AZ c \<or> is_az c else db_cased U c)"

definition tolower :: "unicode_db \<Rightarrow> str \<Rightarrow> codepoint \<Rightarrow> str \<Rightarrow> str" where
  "tolower U before c after =
     (if c < 128 then [if is_AZ c then c + 32 else c] else db_tolower U before c after)"

definition totitle :: "unicode_db \<Rightarrow> codepoint \<Rightarrow> str" where
  "totitle U c = (if c < 128 then [if is_az c then c - 32 else c] else db_totitle U c)"

text \<open>\<^verbatim>\<open>s.lower()\<close>: every character is mapped in its context within \<open>s\<close>.\<close>

fun lower_from :: "unicode_db \<Rightarrow> str \<Rightarrow> str \<Rightarrow> str" where
  "lower_from U before [] = []"
| "lower_from U before (c # cs) = tolower U before c cs @ lower_from U (before @ [c]) cs"

definition lower :: "unicode_db \<Rightarrow> str \<Rightarrow> str" where
  "lower U s = lower_from U [] s"

text \<open>
  \<^verbatim>\<open>s.title()\<close>: a character after a cased character is lower-cased, any other one is
  title-cased.
\<close>

fun title_from :: "unicode_db \<Rightarrow> bool \<Rightarrow> str \<Rightarrow> str \<Rightarrow> str" where
  "title_from U previous_is_cased before [] = []"
| "title_from U previous_is_cased before (c # cs) =
     (if previous_is_cased then tolower U before c cs else totitle U c)
     @ title_from U (cased U c) (before @ [c]) cs"

definition title :: "unicode_db \<Rightarrow> str \<Rightarrow> str" where
  "title U s = title_from U False [] s"

text \<open>\<^verbatim>\<open>s.strip()\<close> removes the white space at both ends.\<close>

definition strip :: "str \<Rightarrow> str" where
  "strip s = rev (dropWhile isspace (rev (dropWhile isspace s)))"

text \<open>
  \<^verbatim>\<open>s.split(sep)\<close> for a one-character separator, and \<^verbatim>\<open>re.split\<close> on a character
  class: the pieces between the separators, empty ones included, so one piece more than
  there are separators.
\<close>

fun split_on :: "(codepoint \<Rightarrow> bool) \<Rightarrow> str \<Rightarrow> str list" where
  "split_on sep [] = [[]]"
| "split_on sep (c # cs) =
     (if sep c then [] # split_on sep cs
      else (case split_on sep cs of p # ps \<Rightarrow> (c # p) # ps | [] \<Rightarrow> [[c]]))"

text \<open>\<^verbatim>\<open>s.split()\<close>: the maximal runs of characters that are not white space.\<close>

function split_ws :: "str \<Rightarrow> str list" where
  "split_ws s =
     (case dropWhile isspace s of
        [] \<Rightarrow> []
      | c # cs \<Rightarrow> takeWhile (\<lambda>d. \<not> isspace d) (c # cs)
                 # split_ws (dropWhile (\<lambda>d. \<not> isspace d) cs))"
  by pat_completeness auto
termination
proof (relation "measure length")
  show "wf (measure length)" by simp
next
  fix s :: str and c cs
  assume "dropWhile isspace s = c # cs"
  then have "length (c # cs) \<le> length s"
    by (metis length_dropWhile_le)
  moreover have "length (dropWhile (\<lambda>d. \<not> isspace d) cs) \<le> length cs"
    by (rule length_dropWhile_le)
  ultimately show "(dropWhile (\<lambda>d. \<not> isspace d) cs, s) \<in> measure length"
    by simp
qed

declare split_ws.simps [simp del]

text \<open>\<^verbatim>\<open>sep.join(parts)\<close>.\<close>

fun join :: "str \<Rightarrow> str list \<Rightarrow> str" where
  "join sep [] = []"
| "join sep [p] = p"
| "join sep (p # q # ps) = p @ sep @ join sep (q # ps)"

text \<open>\<^verbatim>\<open>s.endswith(suffix)\<close>, \<^verbatim>\<open>s.startswith(prefix)\<close> and \<^verbatim>\<open>sub in s\<close>.\<close>

definition endswith :: "str \<Rightarrow> str \<Rightarrow> bool" where
  "endswith s sfx \<longleftrightarrow> suffix sfx s"

definition startswith :: "str \<Rightarrow> str \<Rightarrow> bool" where
  "startswith s pfx \<longleftrightarrow> prefix pfx s"

definition contains :: "str \<Rightarrow> str \<Rightarrow> bool" where
  "contains s sub \<longleftrightarrow> sublist sub s"

text \<open>
  \<^verbatim>\<open>s[:n]\<close> for any integer \<open>n\<close>: the first \<open>n\<close> items when \<open>n\<close> is not negative, all but
  the last \<open>-n\<close> items when it is.
\<close>

definition slice_to :: "'a list \<Rightarrow> int \<Rightarrow> 'a list" where
  "slice_to s n = (if 0 \<le> n then take (nat n) s else take (length s - nat (- n)) s)"

text \<open>\<^verbatim>\<open>xs[i:j]\<close> for indices that are not negative.\<close>

definition slice :: "'a list \<Rightarrow> nat \<Rightarrow> nat \<Rightarrow> 'a list" where
  "slice xs i j = drop i (take j xs)"

text \<open>The exceptions an index or an empty sequence can raise.\<close>

datatype py_error = IndexError | ValueError

definition index :: "'a list \<Rightarrow> nat \<Rightarrow> py_error + 'a" where
  "index xs i = (if i < length xs then Inr (xs ! i) else Inl IndexError)"


section \<open>The NLP oracle\<close>

text \<open>
  The language model \<^verbatim>\<open>nlp\<close> is loaded once; when loading fails it is \<^verbatim>\<open>None\<close>. Of a
  parsed document the code reads the part-of-speech tag of every token, the noun chunks
  (their text and the tag of their root) and the similarity to another document. Scores
  are floats, modelled as reals.
\<close>

record span =
  span_text :: str
  span_root_pos :: string

record doc =
  doc_tokens_pos :: "string list"
  doc_noun_chunks :: "span list"

record nlp_oracle =
  parse :: "str \<Rightarrow> doc"
  doc_similarity :: "doc \<Rightarrow> doc \<Rightarrow> real"

section \<open>UniversalSectionDetector\<close>

text \<open>
  \<^verbatim>\<open>$\<close> without the MULTILINE flag matches at the end of the string and before a
  newline that ends the string.
\<close>

definition at_end :: "str \<Rightarrow> bool" where
  "at_end rest \<longleftrightarrow> rest = [] \<or> rest = [10]"

text \<open>
  \<^verbatim>\<open>cls{m,n}$\<close> for a character class without the newline: the longest run of \<open>cls\<close> has
  between \<open>m\<close> and \<open>n\<close> characters and reaches the end.
\<close>

definition run_to_end :: "(codepoint \<Rightarrow> bool) \<Rightarrow> nat \<Rightarrow> nat \<Rightarrow> str \<Rightarrow> bool" where
  "run_to_end cls m n r \<longleftrightarrow>
     m \<le> length (takeWhile cls r) \<and> length (takeWhile cls r) \<le> n \<and> at_end (dropWhile cls r)"

text \<open>\<^verbatim>\<open>^[A-Z][^\.\n]{10,100}$\<close>\<close>

definition header_pattern_1 :: "str \<Rightarrow> bool" where
  "header_pattern_1 s =
     (case s of [] \<Rightarrow> False
      | c # r \<Rightarrow> is_AZ c \<and> run_to_end (\<lambda>d. d \<noteq> 46 \<and> d \<noteq> 10) 10 100 r)"

text \<open>\<^verbatim>\<open>^(?:[A-Z][a-z0-9 \-&\(\),:]{8,120})$\<close>\<close>

definition header_pattern_2 :: "str \<Rightarrow> bool" where
  "header_pattern_2 s =
     (case s of [] \<Rightarrow> False
      | c # r \<Rightarrow> is_AZ c \<and>
          run_to_end (\<lambda>d. is_az d \<or> is_09 d \<or> d \<in> set (py '' -&(),:'')) 8 120 r)"

text \<open>
  \<^verbatim>\<open>^([A-Z][a-z]+(?: [A-Z][a-z]+)+)$\<close>: two or more words \<^verbatim>\<open>[A-Z][a-z]+\<close> with one space
  between them.
\<close>

definition capitalised_word :: "str \<Rightarrow> bool" where
  "capitalised_word w = (case w of [] \<Rightarrow> False | c # r \<Rightarrow> is_AZ c \<and> r \<noteq> [] \<and> list_all is_az r)"

definition header_pattern_3 :: "str \<Rightarrow> bool" where
  "header_pattern_3 s =
     (let body = (if s \<noteq> [] \<and> last s = 10 then butlast s else s);
          ws = split_on (\<lambda>c. c = 32) body
      in 2 \<le> length ws \<and> list_all capitalised_word ws)"

text \<open>
  \<^verbatim>\<open>^(?:[A-Za-z].*Guide|Checklist|Tips|Things to Do)\<close>: the alternation is inside the
  group, so the string starts with a letter and has \<^verbatim>\<open>Guide\<close> later on its first line, or
  it starts with one of the other three words.
\<close>

definition header_pattern_4 :: "str \<Rightarrow> bool" where
  "header_pattern_4 s =
     ((case s of [] \<Rightarrow> False
       | c # r \<Rightarrow> (is_AZ c \<or> is_az c) \<and> contains (takeWhile (\<lambda>d. d \<noteq> 10) r) (py ''Guide''))
      \<or> startswith s (py ''Checklist'')
      \<or> startswith s (py ''Tips'')
      \<or> startswith s (py ''Things to Do''))"

definition HEADER_PATTERNS :: "(str \<Rightarrow> bool) list" where
  "HEADER_PATTERNS = [header_pattern_1, header_pattern_2, header_pattern_3, header_pattern_4]"

definition FOCUS_KEYWORDS :: "str list" where
  "FOCUS_KEYWORDS =
     [py ''guide'', py ''how to'', py ''create'', py ''convert'', py ''edit'', py ''checklist'',
      py ''tips'', py ''tricks'', py ''introduction'', py ''overview'', py ''summary'',
      py ''activity'', py ''activities'', py ''culinary'', py ''nightlife'',
      py ''entertainment'', py ''forms'', py ''sign'']"

text \<open>The bullet glyphs U+2022 and U+25CF, the hyphen and the asterisk.\<close>

definition bullets :: "str list" where
  "bullets = [[8226], [9679], py ''-'', py ''*'']"

definition is_heading :: "unicode_db \<Rightarrow> str \<Rightarrow> bool" where
  "is_heading U line =
     (if line = [] then False
      else let lclean = strip line in
        if lower U lclean \<in> set [py ''untitled section'', py ''section'', py ''heading'', py ''index'']
        then False
        else if lclean \<in> set (bullets @ [py ''.'']) then False
        else if endswith lclean (py ''.'') then False
        else if length lclean < 10 then False
        else if list_ex (\<lambda>pat. pat lclean) HEADER_PATTERNS then True
        else if list_ex (\<lambda>k. contains (take 50 (lower U lclean)) k) FOCUS_KEYWORDS then True
        else False)"

text \<open>
  \<^verbatim>\<open>t[0]\<close> raises IndexError on an empty string; it is reached after the test that \<open>t\<close>
  has two words.
\<close>

definition is_usable_title :: "unicode_db \<Rightarrow> str \<Rightarrow> py_error + bool" where
  "is_usable_title U title' =
     (if title' = [] \<or> length title' < 10 then Inr False
      else let t = strip title' in
        if lower U t = py ''untitled section'' then Inr False
        else if list_ex (endswith t) [py ''.'', py ''*'', py '':'', py '';''] then Inr False
        else if t \<in> set bullets then Inr False
        else if \<not> list_ex (isalpha U) t then Inr False
        else if lower U t \<in> set [py ''section'', py ''heading''] then Inr False
        else let words = split_ws t in
          if length words < 2 then Inr False
          else (case index t 0 of
                  Inl e \<Rightarrow> Inl e
                | Inr c \<Rightarrow> if islower U c then Inr False else Inr True))"

text \<open>Lines 28 to 37: a line is a heading by the rules or, failing them, by the oracle.\<close>

definition heading_candidate :: "unicode_db \<Rightarrow> nlp_oracle option \<Rightarrow> str \<Rightarrow> bool" where
  "heading_candidate U nlp line =
     (if is_heading U line then True
      else (case nlp of
              None \<Rightarrow> False
            | Some m \<Rightarrow>
                (let d = parse m line
                 in 10 < length line \<and> \<not> endswith line (py ''.'')
                    \<and> list_ex (\<lambda>chunk. span_root_pos chunk = ''NOUN'') (doc_noun_chunks d)
                    \<and> \<not> list_ex (\<lambda>t. t = ''VERB'') (doc_tokens_pos d))))"

definition page_lines :: "str \<Rightarrow> str list" where
  "page_lines page_text = map strip (split_on (\<lambda>c. c = 10) page_text)"

definition heading_idxs :: "unicode_db \<Rightarrow> nlp_oracle option \<Rightarrow> str list \<Rightarrow> nat list" where
  "heading_idxs U nlp lines =
     sort (remdups (map fst (filter (\<lambda>(i, line). heading_candidate U nlp line) (enumerate 0 lines))))"

text \<open>
  One round of the loop of lines 40 to 46: \<open>None\<close> is \<^verbatim>\<open>continue\<close>, \<open>Some\<close> the
  appended section.
\<close>

definition section_at ::
  "unicode_db \<Rightarrow> str list \<Rightarrow> nat list \<Rightarrow> nat \<times> nat \<Rightarrow> py_error + (str \<times> str) option" where
  "section_at U lines idxs = (\<lambda>(i, hidx).
     (case (if i + 1 < length idxs then index idxs (i + 1) else Inr (length lines)) of
        Inl e \<Rightarrow> Inl e
      | Inr hend \<Rightarrow>
     (case index lines hidx of
        Inl e \<Rightarrow> Inl e
      | Inr line \<Rightarrow>
          (let title' = strip line in
           case is_usable_title U title' of
             Inl e \<Rightarrow> Inl e
           | Inr usable \<Rightarrow>
               if \<not> usable then Inr None
               else let content =
                      strip (join [10] (filter (\<lambda>l. strip l \<noteq> []) (slice lines (hidx + 1) hend)))
                    in if length content < 30 then Inr None
                       else Inr (Some (title', content))))))"

text \<open>Running the rounds in order: the first exception ends the loop.\<close>

fun collect :: "(py_error + 'a option) list \<Rightarrow> py_error + 'a list" where
  "collect [] = Inr []"
| "collect (r # rs) =
     (case r of
        Inl e \<Rightarrow> Inl e
      | Inr x \<Rightarrow>
          (case collect rs of
             Inl e \<Rightarrow> Inl e
           | Inr xs \<Rightarrow> Inr (case x of None \<Rightarrow> xs | Some y \<Rightarrow> y # xs)))"

text \<open>Lines 25 to 46: the primary pass.\<close>

definition primary_sections ::
  "unicode_db \<Rightarrow> nlp_oracle option \<Rightarrow> str \<Rightarrow> py_error + (str \<times> str) list" where
  "primary_sections U nlp page_text =
     (let lines = page_lines page_text;
          idxs = heading_idxs U nlp lines
      in collect (map (section_at U lines idxs) (enumerate 0 idxs)))"

text \<open>
  \<^verbatim>\<open>max(xs, key=len)\<close>: the first item of greatest length; ValueError on an empty list.
\<close>

definition max_by_len :: "str list \<Rightarrow> py_error + str" where
  "max_by_len xs =
     (case xs of
        [] \<Rightarrow> Inl ValueError
      | x # rest \<Rightarrow> Inr (foldl (\<lambda>best y. if length best < length y then y else best) x rest))"

text \<open>Line 48. The tests are joined by \<^verbatim>\<open>and\<close>, so \<^verbatim>\<open>l[0]\<close> is read of a line of ten
  characters or more.\<close>

definition lines_non_bullet :: "unicode_db \<Rightarrow> str list \<Rightarrow> str list" where
  "lines_non_bullet U lines =
     filter (\<lambda>l. 10 \<le> length l \<and> l \<notin> set bullets \<and> isupper U (l ! 0) \<and> contains l (py '' ''))
       lines"

text \<open>Lines 56 to 59: the first usable chunk.\<close>

fun first_usable :: "unicode_db \<Rightarrow> str list \<Rightarrow> str \<Rightarrow> py_error + (str \<times> str) list" where
  "first_usable U [] body = Inr []"
| "first_usable U (probable # rest) body =
     (case is_usable_title U probable of
        Inl e \<Rightarrow> Inl e
      | Inr usable \<Rightarrow> if usable then Inr [(probable, body)] else first_usable U rest body)"

text \<open>Lines 48 to 59: the fallback ladder, entered with no section and an oracle.\<close>

definition fallback :: "unicode_db \<Rightarrow> nlp_oracle \<Rightarrow> str \<Rightarrow> py_error + (str \<times> str) list" where
  "fallback U m page_text =
     (let candidates = lines_non_bullet U (page_lines page_text) in
      if candidates \<noteq> [] then
        (case max_by_len candidates of
           Inl e \<Rightarrow> Inl e
         | Inr best_title \<Rightarrow>
             (case is_usable_title U best_title of
                Inl e \<Rightarrow> Inl e
              | Inr usable \<Rightarrow> Inr (if usable then [(best_title, strip page_text)] else [])))
      else
        (let d = parse m page_text;
             chunks = map (\<lambda>chunk. title U (strip (span_text chunk)))
                        (filter (\<lambda>chunk. 12 < length (strip (span_text chunk))) (doc_noun_chunks d))
         in first_usable U chunks (strip page_text)))"

definition detect_sections ::
  "unicode_db \<Rightarrow> nlp_oracle option \<Rightarrow> str \<Rightarrow> py_error + (str \<times> str) list" where
  "detect_sections U nlp page_text =
     (case primary_sections U nlp page_text of
        Inl e \<Rightarrow> Inl e
      | Inr sections \<Rightarrow>
          (case (case nlp of
                   Some m \<Rightarrow> if sections = [] \<and> strip page_text \<noteq> [] then fallback U m page_text
                             else Inr sections
                 | None \<Rightarrow> Inr sections) of
             Inl e \<Rightarrow> Inl e
           | Inr sections' \<Rightarrow>
               if sections' = [] \<and> 30 \<le> length (strip page_text) then Inr []
               else Inr sections'))"


section \<open>UniversalTextProcessor\<close>

text \<open>
  Lines 115 to 125. \<^verbatim>\<open>(title or "")\<close> is the title itself when it is a string; the
  content is not read.
\<close>

definition classify_section_type :: "unicode_db \<Rightarrow> str \<Rightarrow> str \<Rightarrow> str" where
  "classify_section_type U title' content =
     (let t = lower U title' in
      if contains t (py ''guide'') then py ''guide''
      else if contains t (py ''convert'') \<or> contains t (py ''export'') then py ''conversion''
      else if contains t (py ''sign'') \<or> contains t (py ''signature'') then py ''signatures''
      else if contains t (py ''checklist'') then py ''checklist''
      else if contains t (py ''activity'') \<or> contains t (py ''things to do'') then py ''activity''
      else if contains t (py ''packing'') then py ''tips''
      else if contains t (py ''tips'') \<or> contains t (py ''trick'') then py ''tips''
      else if contains t (py ''nightlife'') \<or> contains t (py ''entertainment'')
        then py ''entertainment''
      else py ''content'')"

text \<open>
  \<^verbatim>\<open>string.punctuation\<close>: the 32 ASCII characters
  \<^verbatim>\<open>!"#$%&'()*+,-./\<close>, \<^verbatim>\<open>:;<=>?@\<close>, \<^verbatim>\<open>[\]^_`\<close> and \<^verbatim>\<open>{|}~\<close>.
\<close>

definition punctuation :: str where
  "punctuation = [33..<48] @ [58..<65] @ [91..<97] @ [123..<127]"

text \<open>\<^verbatim>\<open>re.sub(r'\s+', ' ', text)\<close>: every maximal run of white space becomes one space.\<close>

function collapse_ws :: "str \<Rightarrow> str" where
  "collapse_ws [] = []"
| "collapse_ws (c # cs) =
     (if isspace c then 32 # collapse_ws (dropWhile isspace cs) else c # collapse_ws cs)"
  by pat_completeness auto
termination
  by (relation "measure length") (auto simp: length_dropWhile_le less_Suc_eq_le)

definition clean_text :: "unicode_db \<Rightarrow> str \<Rightarrow> str" where
  "clean_text U text =
     strip (collapse_ws (filter (\<lambda>c. c \<notin> set punctuation) (lower U text)))"

text \<open>
  \<^verbatim>\<open>sorted(xs, key=f, reverse=True)\<close>: the list is reversed, sorted by a stable sort in
  ascending order and reversed again, so items of equal key keep their order.
\<close>

definition sorted_reverse :: "('a \<Rightarrow> 'k::linorder) \<Rightarrow> 'a list \<Rightarrow> 'a list" where
  "sorted_reverse f xs = rev (sort_key f (rev xs))"

text \<open>Line 145: the candidate sentences.\<close>

definition candidate_sentences :: "str \<Rightarrow> str list" where
  "candidate_sentences section_text =
     map strip (filter (\<lambda>s. 10 < length (strip s))
                  (split_on (\<lambda>c. c = 46 \<or> c = 10) section_text))"

text \<open>Line 158: the number of distinct words of the sentence that are query words.\<close>

definition word_overlap :: "unicode_db \<Rightarrow> str set \<Rightarrow> str \<Rightarrow> nat" where
  "word_overlap U qwords s = card (set (split_ws (lower U s)) \<inter> qwords)"

text \<open>Lines 148 to 159: the ranking, by the oracle's similarity or by word overlap.\<close>

definition rank_sentences ::
  "unicode_db \<Rightarrow> nlp_oracle option \<Rightarrow> str \<Rightarrow> str \<Rightarrow> str list \<Rightarrow> str list" where
  "rank_sentences U nlp query_vector persona sentences =
     (case nlp of
        Some m \<Rightarrow>
          (let query_doc = parse m (strip (persona @ py '' '' @ query_vector))
           in sorted_reverse (\<lambda>s. doc_similarity m query_doc (parse m s)) sentences)
      | None \<Rightarrow>
          (let qwords = set (split_ws (lower U query_vector))
           in sorted_reverse (word_overlap U qwords) sentences))"

text \<open>Lines 160 to 165: the greedy loop, with the buffer \<open>result\<close>.\<close>

fun assemble :: "str list \<Rightarrow> int \<Rightarrow> str \<Rightarrow> str" where
  "assemble [] max_length result = result"
| "assemble (sent # rest) max_length result =
     (if int (length result) + int (length sent) + 2 \<le> max_length
      then assemble rest max_length (result @ sent @ py ''. '')
      else result)"

text \<open>Lines 166 to 170.\<close>

definition annotate :: "str \<Rightarrow> str \<Rightarrow> str" where
  "annotate persona result =
     (if persona \<noteq> [] \<and> result \<noteq> [] then
        (let result1 = (if contains persona (py ''HR'')
                        then py ''For HR professionals: '' @ result else result)
         in if contains persona (py ''Travel'')
            then py ''Travel planner note: '' @ result1 else result1)
      else result)"

definition extract_refined_snippet ::
  "unicode_db \<Rightarrow> nlp_oracle option \<Rightarrow> str \<Rightarrow> str \<Rightarrow> str \<Rightarrow> int \<Rightarrow> str" where
  "extract_refined_snippet U nlp section_text query_vector persona max_length =
     (if strip section_text = [] then []
      else (case candidate_sentences section_text of
              [] \<Rightarrow> slice_to section_text max_length
            | first_sentence # others \<Rightarrow>
                (let ranked = rank_sentences U nlp query_vector persona (first_sentence # others);
                     result = annotate persona (assemble ranked max_length [])
                 in if result \<noteq> [] then strip result
                    else slice_to first_sentence max_length)))"


section \<open>Specification-level definitions and examples\<close>

text \<open>
  The classifier as the specification words it: an ordered table of keyword rules, the
  first matching rule gives the label, and the default label is \<^verbatim>\<open>content\<close>.
\<close>

definition classification_rules :: "(str list \<times> str) list" where
  "classification_rules =
     [([py ''guide''], py ''guide''),
      ([py ''convert'', py ''export''], py ''conversion''),
      ([py ''sign'', py ''signature''], py ''signatures''),
      ([py ''checklist''], py ''checklist''),
      ([py ''activity'', py ''things to do''], py ''activity''),
      ([py ''packing''], py ''tips''),
      ([py ''tips'', py ''trick''], py ''tips''),
      ([py ''nightlife'', py ''entertainment''], py ''entertainment'')]"

fun first_match :: "(str list \<times> str) list \<Rightarrow> str \<Rightarrow> str" where
  "first_match [] t = py ''content''"
| "first_match ((keywords, label) # rules) t =
     (if list_ex (contains t) keywords then label else first_match rules t)"

text \<open>
  A table for texts whose characters from 128 on are caseless symbols, as the bullet
  glyphs are. ASCII text never consults the table.
\<close>

definition plain_db :: unicode_db where
  "plain_db = \<lparr> db_isalpha = (\<lambda>c. False), db_isupper = (\<lambda>c. False),
                db_islower = (\<lambda>c. False), db_cased = (\<lambda>c. False),
                db_tolower = (\<lambda>before c after. [c]), db_totitle = (\<lambda>c. [c]) \<rparr>"

text \<open>
  What idempotence of \<^verbatim>\<open>lower()\<close> needs of the table: a character that the lower-case
  mapping of a code point from 128 on produces is left alone by a second lower-casing, in
  any context. Python's tables have this property.
\<close>

definition lower_stable :: "unicode_db \<Rightarrow> bool" where
  "lower_stable U \<longleftrightarrow>
     (\<forall>before c after d before' after'.
        128 \<le> c \<longrightarrow> d \<in> set (db_tolower U before c after) \<longrightarrow> tolower U before' d after' = [d])"

text \<open>A text whose only white space is single spaces between other characters.\<close>

fun single_spaced :: "str \<Rightarrow> bool" where
  "single_spaced [] = True"
| "single_spaced [c] = (isspace c \<longrightarrow> c = 32)"
| "single_spaced (c # d # cs) = ((isspace c \<longrightarrow> c = 32 \<and> \<not> isspace d) \<and> single_spaced (d # cs))"

text \<open>An oracle that finds no token and no noun chunk, and scores every pair 0.\<close>

definition silent_oracle :: nlp_oracle where
  "silent_oracle = \<lparr> parse = (\<lambda>s. \<lparr> doc_tokens_pos = [], doc_noun_chunks = [] \<rparr>),
                      doc_similarity = (\<lambda>a b. 0) \<rparr>"

text \<open>
  The page of the specification's example: two headings, each with one line of body, of 26
  and 28 characters.
\<close>

definition spec_example_page :: str where
  "spec_example_page =
     py ''Packing Checklist'' @ [10] @ py ''Bring sunscreen and a hat.'' @ [10]
     @ py ''Travel Tips For Families'' @ [10] @ py ''Book early and travel light.''"

text \<open>The same headings with bodies of 40 and 38 characters.\<close>

definition long_example_page :: str where
  "long_example_page =
     py ''Packing Checklist'' @ [10] @ py ''Bring sunscreen and a hat for the beach.'' @ [10]
     @ py ''Travel Tips For Families'' @ [10] @ py ''Book early and travel light with kids.''"

text \<open>A page that is one heading line.\<close>

definition heading_only_page :: str where
  "heading_only_page = py ''Packing Checklist''"

section \<open>Evaluation rules for concrete texts\<close>

lemmas str_eval = py_def isspace_def whitespace_ranges_def is_AZ_def is_az_def is_09_def
  isalpha_def isupper_def islower_def cased_def tolower_def totitle_def lower_def title_def
  strip_def endswith_def startswith_def contains_def slice_to_def slice_def index_def
  suffix_to_prefix sublist_code(3) Let_def

lemmas det_eval = at_end_def run_to_end_def header_pattern_1_def header_pattern_2_def
  header_pattern_3_def header_pattern_4_def capitalised_word_def HEADER_PATTERNS_def
  FOCUS_KEYWORDS_def bullets_def is_heading_def is_usable_title_def

section \<open>The section classifier\<close>

lemma first_match_rules:
  "first_match classification_rules t =
     (if contains t (py ''guide'') then py ''guide''
      else if contains t (py ''convert'') \<or> contains t (py ''export'') then py ''conversion''
      else if contains t (py ''sign'') \<or> contains t (py ''signature'') then py ''signatures''
      else if contains t (py ''checklist'') then py ''checklist''
      else if contains t (py ''activity'') \<or> contains t (py ''things to do'') then py ''activity''
      else if contains t (py ''packing'') then py ''tips''
      else if contains t (py ''tips'') \<or> contains t (py ''trick'') then py ''tips''
      else if contains t (py ''nightlife'') \<or> contains t (py ''entertainment'')
        then py ''entertainment''
      else py ''content'')"
  by (simp add: classification_rules_def)

text \<open>
  C8. The classifier returns the label of the first rule, in the order guide, conversion,
  signatures, checklist, activity, packing (as tips), tips, entertainment, whose keyword
  occurs in the lower-cased title, and \<^verbatim>\<open>content\<close> when none does. So a title whose
  lower-case form contains both \<^verbatim>\<open>guide\<close> and \<^verbatim>\<open>checklist\<close> is a \<^verbatim>\<open>guide\<close>, whatever the
  body is.
\<close>

theorem classify_first_match:
  "classify_section_type U title' content = first_match classification_rules (lower U title')
   \<and> map snd classification_rules =
       [py ''guide'', py ''conversion'', py ''signatures'', py ''checklist'', py ''activity'',
        py ''tips'', py ''tips'', py ''entertainment'']
   \<and> (contains (lower U title') (py ''guide'') \<and> contains (lower U title') (py ''checklist'')
        \<longrightarrow> classify_section_type U title' content = py ''guide''
            \<and> classify_section_type U title' content \<noteq> py ''checklist'')"
proof -
  have "classify_section_type U title' content = first_match classification_rules (lower U title')"
    unfolding first_match_rules by (simp add: classify_section_type_def Let_def)
  moreover have "map snd classification_rules =
       [py ''guide'', py ''conversion'', py ''signatures'', py ''checklist'', py ''activity'',
        py ''tips'', py ''tips'', py ''entertainment'']"
    by (simp add: classification_rules_def)
  moreover have "contains (lower U title') (py ''guide'')
      \<Longrightarrow> classify_section_type U title' content = py ''guide''"
    by (simp add: classify_section_type_def Let_def)
  moreover have "py ''guide'' \<noteq> py ''checklist''"
    by (simp add: py_def)
  ultimately show ?thesis by simp
qed

theorem classify_first_match_witness:
  "contains (lower plain_db (py ''Packing Guide Checklist'')) (py ''guide'')
   \<and> contains (lower plain_db (py ''Packing Guide Checklist'')) (py ''checklist'')
   \<and> classify_section_type plain_db (py ''Packing Guide Checklist'') (py ''Bring a hat'')
       = py ''guide''"
proof -
  have low: "lower plain_db (py ''Packing Guide Checklist'') = py ''packing guide checklist''"
    by (simp add: str_eval)
  have g: "contains (py ''packing guide checklist'') (py ''guide'')"
    by (simp add: str_eval)
  have c: "contains (py ''packing guide checklist'') (py ''checklist'')"
    by (simp add: str_eval)
  have "classify_section_type plain_db (py ''Packing Guide Checklist'') (py ''Bring a hat'')
      = py ''guide''"
    using classify_first_match [of plain_db "py ''Packing Guide Checklist''" "py ''Bring a hat''",
        THEN conjunct2, THEN conjunct2] g c
    unfolding low by (simp only: simp_thms)
  with g c show ?thesis
    unfolding low by (simp only: simp_thms)
qed

section \<open>The ranking of sentences\<close>

lemma assemble_prefix:
  "\<exists>n\<le>length ranked. assemble ranked m result
      = result @ concat (map (\<lambda>s. s @ py ''. '') (take n ranked))"
proof (induction ranked arbitrary: result)
  case Nil
  then show ?case by simp
next
  case (Cons sent rest)
  show ?case
  proof (cases "int (length result) + int (length sent) + 2 \<le> m")
    case True
    from Cons.IH [of "result @ sent @ py ''. ''"] obtain n where
      n: "n \<le> length rest"
        "assemble rest m (result @ sent @ py ''. '')
           = (result @ sent @ py ''. '') @ concat (map (\<lambda>s. s @ py ''. '') (take n rest))"
      by blast
    with True have "Suc n \<le> length (sent # rest) \<and> assemble (sent # rest) m result
        = result @ concat (map (\<lambda>s. s @ py ''. '') (take (Suc n) (sent # rest)))"
      by simp
    then show ?thesis by blast
  next
    case False
    then have "0 \<le> length (sent # rest) \<and> assemble (sent # rest) m result
        = result @ concat (map (\<lambda>s. s @ py ''. '') (take 0 (sent # rest)))"
      by simp
    then show ?thesis by blast
  qed
qed

text \<open>
  C10. Without the oracle the sentences are ranked by a stable descending sort on the
  number of words shared with the query: the ranked list is in descending order of that
  count, the sentences of any one count stand in the ranked list in the order they have in
  the body, and the assembled buffer is a run of leading ranked sentences, each followed
  by a full stop and a space, so it keeps that order.
\<close>

theorem rank_sentences_stable:
  "sorted_wrt (\<lambda>a b. word_overlap U (set (split_ws (lower U query_vector))) b
                      \<le> word_overlap U (set (split_ws (lower U query_vector))) a)
     (rank_sentences U None query_vector persona sentences)
   \<and> filter (\<lambda>s. word_overlap U (set (split_ws (lower U query_vector))) s = k)
        (rank_sentences U None query_vector persona sentences)
     = filter (\<lambda>s. word_overlap U (set (split_ws (lower U query_vector))) s = k) sentences
   \<and> (\<exists>n. assemble (rank_sentences U None query_vector persona sentences) max_length []
          = concat (map (\<lambda>s. s @ py ''. '')
              (take n (rank_sentences U None query_vector persona sentences))))"
proof -
  define f where "f = word_overlap U (set (split_ws (lower U query_vector)))"
  have r: "rank_sentences U None query_vector persona sentences = rev (sort_key f (rev sentences))"
    by (simp add: rank_sentences_def sorted_reverse_def f_def)
  have "sorted (map f (sort_key f (rev sentences)))"
    by simp
  then have "sorted_wrt (\<lambda>a b. f a \<le> f b) (sort_key f (rev sentences))"
    by (simp add: sorted_wrt_map)
  then have d: "sorted_wrt (\<lambda>a b. f b \<le> f a) (rev (sort_key f (rev sentences)))"
    by (simp add: sorted_wrt_rev)
  have "filter (\<lambda>s. f s = k) (rev (sort_key f (rev sentences)))
      = rev (filter (\<lambda>s. f s = k) (sort_key f (rev sentences)))"
    by (simp add: rev_filter)
  also have "\<dots> = rev (filter (\<lambda>s. f s = k) (rev sentences))"
    by (simp only: sort_key_stable)
  also have "\<dots> = filter (\<lambda>s. f s = k) sentences"
    by (simp add: rev_filter)
  finally have st: "filter (\<lambda>s. f s = k) (rev (sort_key f (rev sentences)))
      = filter (\<lambda>s. f s = k) sentences" .
  from assemble_prefix [of "rev (sort_key f (rev sentences))" max_length "[]"]
  have a: "\<exists>n. assemble (rev (sort_key f (rev sentences))) max_length []
      = concat (map (\<lambda>s. s @ py ''. '') (take n (rev (sort_key f (rev sentences)))))"
    by auto
  show ?thesis
    unfolding r using d st a by (simp add: f_def)
qed

section \<open>The text normaliser\<close>

lemma isspace_32: "isspace 32"
  by (simp add: isspace_def whitespace_ranges_def)

lemma tolower_ascii_fixed:
  "c < 128 \<Longrightarrow> d \<in> set (tolower U before c after) \<Longrightarrow> tolower U before' d after' = [d]"
  by (auto simp: tolower_def is_AZ_def)

lemma tolower_fixed:
  assumes "lower_stable U" and "d \<in> set (tolower U before c after)"
  shows "tolower U before' d after' = [d]"
proof (cases "c < 128")
  case True
  then show ?thesis using assms(2) by (rule tolower_ascii_fixed)
next
  case False
  with assms show ?thesis
    unfolding lower_stable_def by (simp add: tolower_def [of U before c after]) (metis not_less)
qed

lemma lower_from_chars_fixed:
  assumes "lower_stable U" and "d \<in> set (lower_from U before s)"
  shows "tolower U before' d after' = [d]"
  using assms(2)
proof (induction s arbitrary: before)
  case Nil
  then show ?case by simp
next
  case (Cons c cs)
  then show ?case using tolower_fixed [OF assms(1)] by auto
qed

lemma lower_from_id:
  "(\<And>d before after. d \<in> set s \<Longrightarrow> tolower U before d after = [d]) \<Longrightarrow> lower_from U before s = s"
  by (induction s arbitrary: before) auto

lemma set_collapse_ws: "set (collapse_ws s) \<subseteq> insert 32 (set s)"
proof (induction s rule: collapse_ws.induct)
  case 1
  then show ?case by simp
next
  case (2 c cs)
  have "set (dropWhile isspace cs) \<subseteq> set cs"
    by (auto dest: set_dropWhileD)
  with 2 show ?case by auto
qed

lemma set_strip: "set (strip s) \<subseteq> set s"
proof
  fix c assume "c \<in> set (strip s)"
  then have "c \<in> set (dropWhile isspace (rev (dropWhile isspace s)))"
    by (simp add: strip_def)
  then have "c \<in> set (rev (dropWhile isspace s))" by (rule set_dropWhileD)
  then have "c \<in> set (dropWhile isspace s)" by simp
  then show "c \<in> set s" by (rule set_dropWhileD)
qed

lemma strip_take_drop: "\<exists>n m. strip s = take n (drop m s)"
proof -
  have "strip s = rev (drop (length (takeWhile isspace (rev (dropWhile isspace s)))) (rev (dropWhile isspace s)))"
    unfolding strip_def by (simp only: dropWhile_eq_drop [symmetric])
  also have "\<dots> = take (length (dropWhile isspace s) - length (takeWhile isspace (rev (dropWhile isspace s)))) (dropWhile isspace s)"
    by (simp add: rev_drop)
  finally show ?thesis
    by (metis dropWhile_eq_drop)
qed

lemma single_spaced_tl: "single_spaced (c # cs) \<Longrightarrow> single_spaced cs"
  by (cases cs) auto

lemma single_spaced_drop: "single_spaced s \<Longrightarrow> single_spaced (drop m s)"
proof (induction m arbitrary: s)
  case 0
  then show ?case by simp
next
  case (Suc m)
  then show ?case by (cases s) (auto dest: single_spaced_tl)
qed

lemma single_spaced_take: "single_spaced s \<Longrightarrow> single_spaced (take n s)"
proof (induction s arbitrary: n rule: single_spaced.induct)
  case 1
  then show ?case by simp
next
  case (2 c)
  then show ?case by (cases n) auto
next
  case (3 c d cs)
  show ?case
  proof (cases n)
    case 0
    then show ?thesis by simp
  next
    case (Suc k)
    from 3 have ih: "single_spaced (take k (d # cs))" by simp
    from 3(2) Suc ih show ?thesis by (cases k) auto
  qed
qed

lemma collapse_ws_head:
  "s \<noteq> [] \<Longrightarrow> \<not> isspace (hd s) \<Longrightarrow> collapse_ws s \<noteq> [] \<and> hd (collapse_ws s) = hd s"
  by (cases s) auto

lemma single_spaced_collapse_ws: "single_spaced (collapse_ws s)"
proof (induction s rule: collapse_ws.induct)
  case 1
  then show ?case by simp
next
  case (2 c cs)
  show ?case
  proof (cases "isspace c")
    case True
    let ?r = "dropWhile isspace cs"
    show ?thesis
    proof (cases "?r = []")
      case True
      with \<open>isspace c\<close> show ?thesis by (simp del: dropWhile_eq_Nil_conv)
    next
      case False
      then have "\<not> isspace (hd ?r)" by (rule hd_dropWhile)
      with False collapse_ws_head [of ?r] obtain e es where
        e: "collapse_ws ?r = e # es" "\<not> isspace e"
        by (cases "collapse_ws ?r") auto
      with 2(1) [OF True] True show ?thesis by simp
    qed
  next
    case False
    with 2(2) show ?thesis by (cases "collapse_ws cs") auto
  qed
qed

lemma collapse_ws_single_spaced: "single_spaced s \<Longrightarrow> collapse_ws s = s"
  by (induction s rule: single_spaced.induct) auto

lemma strip_id: "s = [] \<or> (\<not> isspace (hd s) \<and> \<not> isspace (last s)) \<Longrightarrow> strip s = s"
proof (cases s)
  case Nil
  then show ?thesis by (simp add: strip_def)
next
  case (Cons c cs)
  assume "s = [] \<or> (\<not> isspace (hd s) \<and> \<not> isspace (last s))"
  with Cons have h: "\<not> isspace c" and l: "\<not> isspace (last s)" by auto
  from h Cons have 1: "dropWhile isspace s = s" by simp
  from l have "\<not> isspace (hd (rev s))" by (simp add: hd_rev)
  then have 2: "dropWhile isspace (rev s) = rev s"
    by (simp only: dropWhile_eq_self_iff simp_thms)
  show ?thesis by (simp add: strip_def 1 2)
qed

lemma strip_ends: "strip s = [] \<or> (\<not> isspace (hd (strip s)) \<and> \<not> isspace (last (strip s)))"
proof (cases "strip s = []")
  case True
  then show ?thesis by simp
next
  case False
  let ?t = "dropWhile isspace s"
  let ?u = "dropWhile isspace (rev ?t)"
  from False have u: "?u \<noteq> []" by (simp add: strip_def)
  then have "\<not> isspace (hd ?u)" by (rule hd_dropWhile)
  then have l: "\<not> isspace (last (strip s))"
    using u by (simp add: strip_def last_rev)
  from u have t: "?t \<noteq> []" by (metis dropWhile.simps(1) rev.simps(1))
  then have ht: "\<not> isspace (hd ?t)" by (rule hd_dropWhile)
  obtain n where n: "strip s = take n ?t"
    unfolding strip_def
    by (metis dropWhile_eq_drop rev_drop rev_rev_ident)
  with False have "hd (strip s) = hd ?t" by (cases n; cases ?t) auto
  with ht l show ?thesis by simp
qed

lemma strip_strip: "strip (strip s) = strip s"
  by (rule strip_id) (rule strip_ends)

lemma in_punctuation: "c \<in> set punctuation \<longleftrightarrow> (33 \<le> c \<and> c < 48) \<or> (58 \<le> c \<and> c < 65) \<or> (91 \<le> c \<and> c < 97) \<or> (123 \<le> c \<and> c < 127)"
  unfolding punctuation_def set_append set_upt Un_iff atLeastLessThan_iff by blast

text \<open>
  C9. \<^verbatim>\<open>clean_text\<close> is idempotent: cleaning a cleaned text changes nothing. It holds for
  every text, over any Unicode table whose lower-case mapping is stable under a second
  lower-casing.
\<close>

theorem clean_text_idempotent:
  assumes "lower_stable U"
  shows "clean_text U (clean_text U x) = clean_text U x"
proof -
  define w where "w = filter (\<lambda>c. c \<notin> set punctuation) (lower U x)"
  define y where "y = strip (collapse_ws w)"
  have y: "clean_text U x = y" by (simp add: clean_text_def y_def w_def)
  have sub: "set y \<subseteq> insert 32 (set w)"
    unfolding y_def using set_strip [of "collapse_ws w"] set_collapse_ws [of w] by blast
  have fixed: "tolower U before d after = [d]" if "d \<in> set y" for d before after
  proof (cases "d = 32")
    case True
    then show ?thesis by (simp add: tolower_def is_AZ_def)
  next
    case False
    with that sub have "d \<in> set (lower_from U [] x)" by (auto simp: w_def lower_def)
    with assms show ?thesis by (rule lower_from_chars_fixed)
  qed
  then have low: "lower U y = y"
    unfolding lower_def by (rule lower_from_id)
  have "c \<notin> set punctuation" if "c \<in> set y" for c
    using that sub by (auto simp: w_def in_punctuation)
  then have fil: "filter (\<lambda>c. c \<notin> set punctuation) y = y"
    by (simp add: filter_id_conv)
  obtain n m where "y = take n (drop m (collapse_ws w))"
    unfolding y_def using strip_take_drop by blast
  then have "single_spaced y"
    by (simp add: single_spaced_collapse_ws single_spaced_drop single_spaced_take)
  then have col: "collapse_ws y = y" by (rule collapse_ws_single_spaced)
  have str: "strip y = y" unfolding y_def by (rule strip_strip)
  show ?thesis
    unfolding y by (simp add: clean_text_def [of U y] low fil col str)
qed


lemma lower_stable_plain_db: "lower_stable plain_db"
  by (simp add: lower_stable_def plain_db_def tolower_def)

theorem clean_text_idempotent_witness:
  "lower_stable plain_db
   \<and> clean_text plain_db (py ''  Hello,   World! '') = py ''hello world''
   \<and> clean_text plain_db (clean_text plain_db (py ''  Hello,   World! ''))
       = clean_text plain_db (py ''  Hello,   World! '')"
proof -
  have "clean_text plain_db (py ''  Hello,   World! '') = py ''hello world''"
    by (simp add: clean_text_def str_eval in_punctuation)
  with lower_stable_plain_db
    clean_text_idempotent [OF lower_stable_plain_db, of "py ''  Hello,   World! ''"]
  show ?thesis by (simp only: simp_thms)
qed

section \<open>The section detector never raises\<close>

lemma split_ws_Nil: "split_ws [] = []"
  by (simp add: split_ws.simps)

lemma is_usable_title_cases:
  "is_usable_title U t = Inr True \<or> is_usable_title U t = Inr False"
proof (cases "2 \<le> length (split_ws (strip t))")
  case True
  then have "strip t \<noteq> []" using split_ws_Nil by auto
  then show ?thesis by (simp add: is_usable_title_def Let_def index_def)
next
  case False
  then show ?thesis by (simp add: is_usable_title_def Let_def)
qed

lemma is_usable_title_not_error: "is_usable_title U t \<noteq> Inl e"
  using is_usable_title_cases [of U t] by auto

lemma is_usable_title_True_iff:
  "is_usable_title U t = Inr True \<longleftrightarrow>
     t \<noteq> [] \<and> 10 \<le> length t
     \<and> lower U (strip t) \<notin> set [py ''untitled section'', py ''section'', py ''heading'']
     \<and> \<not> list_ex (endswith (strip t)) [py ''.'', py ''*'', py '':'', py '';'']
     \<and> strip t \<notin> set bullets
     \<and> list_ex (isalpha U) (strip t)
     \<and> 2 \<le> length (split_ws (strip t))
     \<and> \<not> islower U (strip t ! 0)"
proof (cases "2 \<le> length (split_ws (strip t))")
  case True
  then have "strip t \<noteq> []" using split_ws_Nil by auto
  with True show ?thesis by (auto simp: is_usable_title_def Let_def index_def)
next
  case False
  then show ?thesis by (auto simp: is_usable_title_def Let_def)
qed

lemma section_at_ok:
  assumes "hidx < length lines"
  shows "\<exists>r. section_at U lines idxs (i, hidx) = Inr r
           \<and> (\<forall>t b. r = Some (t, b) \<longrightarrow> is_usable_title U t = Inr True)"
  using assms is_usable_title_cases [of U "strip (lines ! hidx)"]
  by (auto simp: section_at_def index_def Let_def)

lemma collect_ok:
  assumes "\<forall>r\<in>set rs. \<exists>x. r = Inr x \<and> (\<forall>y. x = Some y \<longrightarrow> P y)"
  shows "\<exists>xs. collect rs = Inr xs \<and> (\<forall>y\<in>set xs. P y)"
  using assms
proof (induction rs)
  case Nil
  then show ?case by simp
next
  case (Cons r rs)
  then obtain xs where xs: "collect rs = Inr xs" "\<forall>y\<in>set xs. P y" by auto
  from Cons.prems obtain x where x: "r = Inr x" "\<forall>y. x = Some y \<longrightarrow> P y" by auto
  show ?case using xs x by (cases x) auto
qed

lemma heading_idxs_bound: "i \<in> set (heading_idxs U nlp lines) \<Longrightarrow> i < length lines"
  by (auto simp: heading_idxs_def enumerate_eq_zip in_set_zip)

lemma primary_sections_ok:
  "\<exists>secs. primary_sections U nlp page_text = Inr secs
      \<and> (\<forall>(t, b)\<in>set secs. is_usable_title U t = Inr True)"
proof -
  let ?lines = "page_lines page_text"
  let ?idxs = "heading_idxs U nlp ?lines"
  have "\<forall>r\<in>set (map (section_at U ?lines ?idxs) (enumerate 0 ?idxs)).
          \<exists>x. r = Inr x \<and> (\<forall>y. x = Some y \<longrightarrow> (case y of (t, b) \<Rightarrow> is_usable_title U t = Inr True))"
  proof
    fix r assume "r \<in> set (map (section_at U ?lines ?idxs) (enumerate 0 ?idxs))"
    then obtain i hidx where ih: "(i, hidx) \<in> set (enumerate 0 ?idxs)"
      and r: "r = section_at U ?lines ?idxs (i, hidx)" by auto
    from ih have "hidx \<in> set ?idxs" by (auto simp: enumerate_eq_zip dest: set_zip_rightD)
    then have "hidx < length ?lines" by (rule heading_idxs_bound)
    from section_at_ok [OF this, of U ?idxs i] r
    show "\<exists>x. r = Inr x \<and> (\<forall>y. x = Some y \<longrightarrow> (case y of (t, b) \<Rightarrow> is_usable_title U t = Inr True))"
      by auto
  qed
  from collect_ok [OF this] show ?thesis
    by (simp add: primary_sections_def Let_def)
qed

lemma first_usable_ok:
  "\<exists>secs. first_usable U chunks body = Inr secs
      \<and> (\<forall>(t, b)\<in>set secs. is_usable_title U t = Inr True)"
proof (induction chunks)
  case Nil
  then show ?case by simp
next
  case (Cons probable rest)
  then show ?case using is_usable_title_cases [of U probable] by auto
qed

lemma max_by_len_ok: "xs \<noteq> [] \<Longrightarrow> \<exists>best. max_by_len xs = Inr best"
  by (cases xs) (auto simp: max_by_len_def)

lemma fallback_ok:
  "\<exists>secs. fallback U m page_text = Inr secs
      \<and> (\<forall>(t, b)\<in>set secs. is_usable_title U t = Inr True)"
proof (cases "lines_non_bullet U (page_lines page_text) = []")
  case True
  then show ?thesis
    using first_usable_ok by (simp add: fallback_def Let_def)
next
  case False
  then obtain best where b: "max_by_len (lines_non_bullet U (page_lines page_text)) = Inr best"
    using max_by_len_ok by blast
  show ?thesis
    using False b is_usable_title_cases [of U best] by (auto simp: fallback_def Let_def)
qed

lemma detect_sections_ok:
  "\<exists>secs. detect_sections U nlp page_text = Inr secs
      \<and> (\<forall>(t, b)\<in>set secs. is_usable_title U t = Inr True)"
proof -
  obtain secs where p: "primary_sections U nlp page_text = Inr secs"
    and u: "\<forall>(t, b)\<in>set secs. is_usable_title U t = Inr True"
    using primary_sections_ok by blast
  show ?thesis
  proof (cases nlp)
    case None
    with p u show ?thesis by (auto simp: detect_sections_def)
  next
    case (Some m)
    obtain fsecs where f: "fallback U m page_text = Inr fsecs"
      and fu: "\<forall>(t, b)\<in>set fsecs. is_usable_title U t = Inr True"
      using fallback_ok by blast
    with Some p u show ?thesis by (auto simp: detect_sections_def)
  qed
qed


text \<open>
  C5. Every title that \<^verbatim>\<open>detect_sections\<close> returns, from the primary pass or from either
  step of the fallback ladder, passes \<^verbatim>\<open>_is_usable_title\<close>: it is not empty and has ten
  characters or more, and its trimmed form is not \<^verbatim>\<open>untitled section\<close>, \<^verbatim>\<open>section\<close> or
  \<^verbatim>\<open>heading\<close> in any letter case, does not end in a full stop, asterisk, colon or
  semicolon, is not a bullet glyph, has a letter, has two words or more and does not start
  with a lower-case letter.
\<close>

theorem detect_sections_titles_usable:
  assumes "detect_sections U nlp page_text = Inr sections" and "(t, b) \<in> set sections"
  shows "is_usable_title U t = Inr True
     \<and> t \<noteq> [] \<and> 10 \<le> length t
     \<and> lower U (strip t) \<notin> set [py ''untitled section'', py ''section'', py ''heading'']
     \<and> \<not> list_ex (endswith (strip t)) [py ''.'', py ''*'', py '':'', py '';'']
     \<and> strip t \<notin> set bullets
     \<and> list_ex (isalpha U) (strip t)
     \<and> 2 \<le> length (split_ws (strip t))
     \<and> \<not> islower U (strip t ! 0)"
proof -
  from detect_sections_ok [of U nlp page_text] assms
  have "is_usable_title U t = Inr True" by auto
  then show ?thesis
    using is_usable_title_True_iff [of U t] by (simp only: simp_thms)
qed

section \<open>Blank pages\<close>

lemma split_on_chars: "set (concat (split_on sep s)) \<subseteq> set s"
proof (induction s)
  case Nil
  then show ?case by simp
next
  case (Cons c cs)
  then show ?case
    by (cases "split_on sep cs") auto
qed

lemma split_on_set: "l \<in> set (split_on sep s) \<Longrightarrow> set l \<subseteq> set s"
  using split_on_chars [of sep s] by auto

lemma strip_blank: "\<forall>c\<in>set s. isspace c \<Longrightarrow> strip s = []"
proof -
  assume "\<forall>c\<in>set s. isspace c"
  then have "dropWhile isspace s = []" by simp
  then show ?thesis by (simp add: strip_def del: dropWhile_eq_Nil_conv)
qed

lemma heading_candidate_Nil: "\<not> heading_candidate U nlp []"
  by (simp add: heading_candidate_def is_heading_def split: option.split)

lemma page_lines_blank:
  assumes "\<forall>c\<in>set page_text. isspace c" and "l \<in> set (page_lines page_text)"
  shows "l = []"
proof -
  from assms(2) obtain p where p: "p \<in> set (split_on (\<lambda>c. c = 10) page_text)" and l: "l = strip p"
    by (auto simp: page_lines_def)
  from split_on_set [OF p] assms(1) have "\<forall>c\<in>set p. isspace c" by auto
  then show ?thesis unfolding l by (rule strip_blank)
qed

text \<open>
  C7. For a page text that is empty or has white space only, \<^verbatim>\<open>detect_sections\<close> returns
  the empty list and raises nothing, with the oracle or without it.
\<close>

theorem detect_sections_blank:
  assumes "\<forall>c\<in>set page_text. isspace c"
  shows "detect_sections U nlp page_text = Inr []"
proof -
  have "filter (\<lambda>(i, line). heading_candidate U nlp line) (enumerate 0 (page_lines page_text)) = []"
  proof -
    have "\<not> heading_candidate U nlp line"
      if "(i, line) \<in> set (enumerate 0 (page_lines page_text))" for i line
    proof -
      from that have "line \<in> set (page_lines page_text)"
        by (auto simp: enumerate_eq_zip dest: set_zip_rightD)
      with assms have "line = []" by (rule page_lines_blank)
      then show ?thesis by (simp add: heading_candidate_Nil)
    qed
    then show ?thesis by (auto simp: filter_empty_conv)
  qed
  then have "heading_idxs U nlp (page_lines page_text) = []"
    by (simp add: heading_idxs_def)
  then have p: "primary_sections U nlp page_text = Inr []"
    by (simp add: primary_sections_def Let_def)
  from assms have "strip page_text = []" by (rule strip_blank)
  with p show ?thesis
    by (simp add: detect_sections_def split: option.split)
qed

section \<open>The example pages\<close>

lemma is_heading_candidate: "is_heading U line \<Longrightarrow> heading_candidate U nlp line"
  by (simp add: heading_candidate_def)

lemma dotted_line_not_candidate:
  "endswith line (py ''.'') \<Longrightarrow> endswith (strip line) (py ''.'') \<Longrightarrow> \<not> heading_candidate U nlp line"
  by (simp add: heading_candidate_def is_heading_def Let_def split: option.split)

lemma section_at_eval:
  assumes "hidx < length lines"
    and "hend = (if i + 1 < length idxs then idxs ! (i + 1) else length lines)"
    and "is_usable_title U (strip (lines ! hidx)) = Inr usable"
    and "content = strip (join [10] (filter (\<lambda>l. strip l \<noteq> []) (slice lines (hidx + 1) hend)))"
  shows "section_at U lines idxs (i, hidx) =
           Inr (if usable \<and> 30 \<le> length content then Some (strip (lines ! hidx), content) else None)"
  using assms by (auto simp: section_at_def index_def Let_def)

lemma heading_Packing_Checklist: "is_heading U (py ''Packing Checklist'')"
  by (simp add: str_eval det_eval)

lemma heading_Travel_Tips: "is_heading U (py ''Travel Tips For Families'')"
  by (simp add: str_eval det_eval)

lemma usable_Packing_Checklist: "is_usable_title U (py ''Packing Checklist'') = Inr True"
  by (simp add: str_eval det_eval split_ws.simps)

lemma usable_Travel_Tips: "is_usable_title U (py ''Travel Tips For Families'') = Inr True"
  by (simp add: str_eval det_eval split_ws.simps)

lemma not_usable_Book: "is_usable_title U (py ''Book early and travel light.'') = Inr False"
  by (simp add: str_eval det_eval)

lemma not_candidate_Bring: "\<not> heading_candidate U nlp (py ''Bring sunscreen and a hat.'')"
  by (rule dotted_line_not_candidate) (simp_all add: str_eval)

lemma not_candidate_Book: "\<not> heading_candidate U nlp (py ''Book early and travel light.'')"
  by (rule dotted_line_not_candidate) (simp_all add: str_eval)

lemma not_candidate_Bring_long:
  "\<not> heading_candidate U nlp (py ''Bring sunscreen and a hat for the beach.'')"
  by (rule dotted_line_not_candidate) (simp_all add: str_eval)

lemma not_candidate_Book_long:
  "\<not> heading_candidate U nlp (py ''Book early and travel light with kids.'')"
  by (rule dotted_line_not_candidate) (simp_all add: str_eval)

lemmas example_candidates = is_heading_candidate heading_Packing_Checklist heading_Travel_Tips
  not_candidate_Bring not_candidate_Book not_candidate_Bring_long not_candidate_Book_long

lemma strip_Packing_Checklist: "strip (py ''Packing Checklist'') = py ''Packing Checklist''"
  by (simp add: str_eval)

lemma strip_Travel_Tips: "strip (py ''Travel Tips For Families'') = py ''Travel Tips For Families''"
  by (simp add: str_eval)

subsection \<open>The page of the specification\<close>

lemma spec_example_lines:
  "page_lines spec_example_page =
     [py ''Packing Checklist'', py ''Bring sunscreen and a hat.'',
      py ''Travel Tips For Families'', py ''Book early and travel light.'']"
  by (simp add: spec_example_page_def page_lines_def str_eval)

lemma spec_example_idxs: "heading_idxs U nlp (page_lines spec_example_page) = [0, 2]"
  unfolding spec_example_lines heading_idxs_def
  by (simp add: example_candidates)

lemma spec_example_section_0:
  "section_at U (page_lines spec_example_page) [0, 2] (0, 0) = Inr None"
proof -
  have c: "py ''Bring sunscreen and a hat.''
      = strip (join [10] (filter (\<lambda>l. strip l \<noteq> []) (slice (page_lines spec_example_page) (0 + 1) 2)))"
    unfolding spec_example_lines by (simp add: str_eval)
  have "section_at U (page_lines spec_example_page) [0, 2] (0, 0) =
      Inr (if True \<and> 30 \<le> length (py ''Bring sunscreen and a hat.'')
           then Some (strip (page_lines spec_example_page ! 0), py ''Bring sunscreen and a hat.'')
           else None)"
    by (rule section_at_eval [OF _ _ _ c])
      (simp_all add: spec_example_lines strip_Packing_Checklist usable_Packing_Checklist)
  then show ?thesis by (simp add: py_def)
qed

lemma spec_example_section_1:
  "section_at U (page_lines spec_example_page) [0, 2] (Suc 0, 2) = Inr None"
proof -
  have c: "py ''Book early and travel light.''
      = strip (join [10] (filter (\<lambda>l. strip l \<noteq> []) (slice (page_lines spec_example_page) (2 + 1) 4)))"
    unfolding spec_example_lines by (simp add: str_eval)
  have "section_at U (page_lines spec_example_page) [0, 2] (Suc 0, 2) =
      Inr (if True \<and> 30 \<le> length (py ''Book early and travel light.'')
           then Some (strip (page_lines spec_example_page ! 2), py ''Book early and travel light.'')
           else None)"
    by (rule section_at_eval [OF _ _ _ c])
      (simp_all add: spec_example_lines strip_Travel_Tips usable_Travel_Tips)
  then show ?thesis by (simp add: py_def)
qed

lemma spec_example_primary: "primary_sections U nlp spec_example_page = Inr []"
  by (simp add: primary_sections_def Let_def spec_example_idxs
      spec_example_section_0 spec_example_section_1)

lemma spec_example_candidates:
  "lines_non_bullet U (page_lines spec_example_page) = page_lines spec_example_page"
  unfolding spec_example_lines lines_non_bullet_def by (simp add: str_eval bullets_def)

lemma spec_example_best:
  "max_by_len (page_lines spec_example_page) = Inr (py ''Book early and travel light.'')"
  unfolding spec_example_lines by (simp add: max_by_len_def py_def)

lemma spec_example_fallback: "fallback U m spec_example_page = Inr []"
  by (simp add: fallback_def Let_def spec_example_candidates spec_example_best not_usable_Book)
    (simp add: spec_example_lines)

lemma spec_example_sections: "detect_sections U nlp spec_example_page = Inr []"
  by (simp add: detect_sections_def spec_example_primary spec_example_fallback split: option.split)

subsection \<open>The page with longer bodies\<close>

lemma long_example_lines:
  "page_lines long_example_page =
     [py ''Packing Checklist'', py ''Bring sunscreen and a hat for the beach.'',
      py ''Travel Tips For Families'', py ''Book early and travel light with kids.'']"
  by (simp add: long_example_page_def page_lines_def str_eval)

lemma long_example_idxs: "heading_idxs U nlp (page_lines long_example_page) = [0, 2]"
  unfolding long_example_lines heading_idxs_def
  by (simp add: example_candidates)

lemma long_example_section_0:
  "section_at U (page_lines long_example_page) [0, 2] (0, 0) =
     Inr (Some (py ''Packing Checklist'', py ''Bring sunscreen and a hat for the beach.''))"
proof -
  have c: "py ''Bring sunscreen and a hat for the beach.''
      = strip (join [10] (filter (\<lambda>l. strip l \<noteq> []) (slice (page_lines long_example_page) (0 + 1) 2)))"
    unfolding long_example_lines by (simp add: str_eval)
  have "section_at U (page_lines long_example_page) [0, 2] (0, 0) =
      Inr (if True \<and> 30 \<le> length (py ''Bring sunscreen and a hat for the beach.'')
           then Some (strip (page_lines long_example_page ! 0),
                      py ''Bring sunscreen and a hat for the beach.'')
           else None)"
    by (rule section_at_eval [OF _ _ _ c])
      (simp_all add: long_example_lines strip_Packing_Checklist usable_Packing_Checklist)
  then show ?thesis
    by (simp add: long_example_lines strip_Packing_Checklist) (simp add: py_def)
qed

lemma long_example_section_1:
  "section_at U (page_lines long_example_page) [0, 2] (Suc 0, 2) =
     Inr (Some (py ''Travel Tips For Families'', py ''Book early and travel light with kids.''))"
proof -
  have c: "py ''Book early and travel light with kids.''
      = strip (join [10] (filter (\<lambda>l. strip l \<noteq> []) (slice (page_lines long_example_page) (2 + 1) 4)))"
    unfolding long_example_lines by (simp add: str_eval)
  have "section_at U (page_lines long_example_page) [0, 2] (Suc 0, 2) =
      Inr (if True \<and> 30 \<le> length (py ''Book early and travel light with kids.'')
           then Some (strip (page_lines long_example_page ! 2),
                      py ''Book early and travel light with kids.'')
           else None)"
    by (rule section_at_eval [OF _ _ _ c])
      (simp_all add: long_example_lines strip_Travel_Tips usable_Travel_Tips)
  then show ?thesis
    by (simp add: long_example_lines strip_Travel_Tips) (simp add: py_def)
qed

lemma long_example_primary:
  "primary_sections U nlp long_example_page =
     Inr [(py ''Packing Checklist'', py ''Bring sunscreen and a hat for the beach.''),
          (py ''Travel Tips For Families'', py ''Book early and travel light with kids.'')]"
  by (simp add: primary_sections_def Let_def long_example_idxs
      long_example_section_0 long_example_section_1)

lemma long_example_sections:
  "detect_sections U nlp long_example_page =
     Inr [(py ''Packing Checklist'', py ''Bring sunscreen and a hat for the beach.''),
          (py ''Travel Tips For Families'', py ''Book early and travel light with kids.'')]"
  by (simp add: detect_sections_def long_example_primary split: option.split)

subsection \<open>The page that is one heading\<close>

lemma heading_only_lines: "page_lines heading_only_page = [py ''Packing Checklist'']"
  by (simp add: heading_only_page_def page_lines_def str_eval)

lemma heading_only_strip: "strip heading_only_page = py ''Packing Checklist''"
  by (simp add: heading_only_page_def strip_Packing_Checklist)

lemma heading_only_idxs: "heading_idxs U nlp (page_lines heading_only_page) = [0]"
  unfolding heading_only_lines heading_idxs_def
  by (simp add: example_candidates)

lemma heading_only_section_0:
  "section_at U (page_lines heading_only_page) [0] (0, 0) = Inr None"
proof -
  have c: "[] = strip (join [10] (filter (\<lambda>l. strip l \<noteq> [])
                  (slice (page_lines heading_only_page) (0 + 1) 1)))"
    unfolding heading_only_lines by (simp add: str_eval)
  have "section_at U (page_lines heading_only_page) [0] (0, 0) =
      Inr (if True \<and> 30 \<le> length ([] :: str)
           then Some (strip (page_lines heading_only_page ! 0), []) else None)"
    by (rule section_at_eval [OF _ _ _ c])
      (simp_all add: heading_only_lines strip_Packing_Checklist usable_Packing_Checklist)
  then show ?thesis by simp
qed

lemma heading_only_primary: "primary_sections U nlp heading_only_page = Inr []"
  by (simp add: primary_sections_def Let_def heading_only_idxs heading_only_section_0)

lemma heading_only_candidates:
  "lines_non_bullet U (page_lines heading_only_page) = [py ''Packing Checklist'']"
  unfolding heading_only_lines lines_non_bullet_def by (simp add: str_eval bullets_def)

lemma heading_only_best: "max_by_len [py ''Packing Checklist''] = Inr (py ''Packing Checklist'')"
  by (simp add: max_by_len_def)

lemma heading_only_without_oracle: "detect_sections U None heading_only_page = Inr []"
  by (simp add: detect_sections_def heading_only_primary)

lemma heading_only_with_oracle:
  "detect_sections U (Some m) heading_only_page
     = Inr [(py ''Packing Checklist'', py ''Packing Checklist'')]"
  by (simp add: detect_sections_def heading_only_primary heading_only_strip fallback_def
      heading_only_candidates heading_only_best usable_Packing_Checklist)
    (simp add: py_def)

subsection \<open>Two headings with one-line bodies\<close>

lemma split_on_no_sep: "\<forall>c\<in>set a. \<not> sep c \<Longrightarrow> split_on sep a = [a]"
  by (induction a) auto

lemma split_on_append_sep:
  "\<forall>c\<in>set a. \<not> sep c \<Longrightarrow> sep x \<Longrightarrow> split_on sep (a @ x # rest) = a # split_on sep rest"
  by (induction a) auto

lemma no_newline_Packing_Checklist: "\<forall>c\<in>set (py ''Packing Checklist''). \<not> c = 10"
  by (simp add: py_def)

lemma no_newline_Travel_Tips: "\<forall>c\<in>set (py ''Travel Tips For Families''). \<not> c = 10"
  by (simp add: py_def)

lemma two_heading_lines:
  assumes "10 \<notin> set body1" and "10 \<notin> set body2"
  shows "page_lines (py ''Packing Checklist'' @ [10] @ body1 @ [10]
           @ py ''Travel Tips For Families'' @ [10] @ body2)
         = [py ''Packing Checklist'', strip body1, py ''Travel Tips For Families'', strip body2]"
proof -
  from assms have 1: "\<forall>c\<in>set body1. \<not> c = 10" and 2: "\<forall>c\<in>set body2. \<not> c = 10"
    by auto
  have "split_on (\<lambda>c. c = 10) (py ''Packing Checklist'' @ 10 # body1 @ 10
           # py ''Travel Tips For Families'' @ 10 # body2)
      = [py ''Packing Checklist'', body1, py ''Travel Tips For Families'', body2]"
    by (simp only: split_on_append_sep [OF no_newline_Packing_Checklist]
        split_on_append_sep [OF 1] split_on_append_sep [OF no_newline_Travel_Tips]
        split_on_no_sep [OF 2])
  then show ?thesis
    by (simp add: page_lines_def strip_Packing_Checklist strip_Travel_Tips)
qed

lemma dotted_body_not_candidate:
  "endswith (strip body) (py ''.'') \<Longrightarrow> \<not> heading_candidate U nlp (strip body)"
  by (rule dotted_line_not_candidate) (simp_all add: strip_strip)

lemma body_section:
  assumes "30 \<le> length (strip body)"
  shows "strip (join [10] (filter (\<lambda>l. strip l \<noteq> []) [strip body])) = strip body"
proof -
  from assms have "strip body \<noteq> []" by auto
  then show ?thesis by (simp add: strip_strip)
qed

lemma two_heading_sections:
  assumes "10 \<notin> set body1" and "endswith (strip body1) (py ''.'')" and "30 \<le> length (strip body1)"
    and "10 \<notin> set body2" and "endswith (strip body2) (py ''.'')" and "30 \<le> length (strip body2)"
  shows "detect_sections U nlp (py ''Packing Checklist'' @ [10] @ body1 @ [10]
           @ py ''Travel Tips For Families'' @ [10] @ body2)
         = Inr [(py ''Packing Checklist'', strip body1),
                (py ''Travel Tips For Families'', strip body2)]"
proof -
  let ?page = "py ''Packing Checklist'' @ [10] @ body1 @ [10]
           @ py ''Travel Tips For Families'' @ [10] @ body2"
  let ?lines = "[py ''Packing Checklist'', strip body1, py ''Travel Tips For Families'', strip body2]"
  have lines: "page_lines ?page = ?lines"
    using assms(1,4) by (rule two_heading_lines)
  have idxs: "heading_idxs U nlp ?lines = [0, 2]"
    unfolding heading_idxs_def
    by (simp add: is_heading_candidate heading_Packing_Checklist heading_Travel_Tips
        dotted_body_not_candidate [OF assms(2)] dotted_body_not_candidate [OF assms(5)])
  have c0: "strip body1
      = strip (join [10] (filter (\<lambda>l. strip l \<noteq> []) (slice ?lines (0 + 1) 2)))"
    using body_section [OF assms(3)] by (simp add: slice_def)
  have "section_at U ?lines [0, 2] (0, 0) =
      Inr (if True \<and> 30 \<le> length (strip body1)
           then Some (strip (?lines ! 0), strip body1) else None)"
    by (rule section_at_eval [OF _ _ _ c0])
      (simp_all add: strip_Packing_Checklist usable_Packing_Checklist)
  with assms(3) have s0: "section_at U ?lines [0, 2] (0, 0)
      = Inr (Some (py ''Packing Checklist'', strip body1))"
    by (simp add: strip_Packing_Checklist)
  have c1: "strip body2
      = strip (join [10] (filter (\<lambda>l. strip l \<noteq> []) (slice ?lines (2 + 1) 4)))"
    using body_section [OF assms(6)] by (simp add: slice_def)
  have "section_at U ?lines [0, 2] (Suc 0, 2) =
      Inr (if True \<and> 30 \<le> length (strip body2)
           then Some (strip (?lines ! 2), strip body2) else None)"
    by (rule section_at_eval [OF _ _ _ c1])
      (simp_all add: strip_Travel_Tips usable_Travel_Tips)
  with assms(6) have s1: "section_at U ?lines [0, 2] (Suc 0, 2)
      = Inr (Some (py ''Travel Tips For Families'', strip body2))"
    by (simp add: strip_Travel_Tips)
  have "primary_sections U nlp ?page
      = Inr [(py ''Packing Checklist'', strip body1),
             (py ''Travel Tips For Families'', strip body2)]"
    unfolding primary_sections_def Let_def lines idxs by (simp add: s0 s1)
  then show ?thesis
    unfolding detect_sections_def by (simp split: option.split)
qed

section \<open>Results on the section detector\<close>

theorem detect_sections_titles_usable_witness:
  "detect_sections plain_db None long_example_page =
     Inr [(py ''Packing Checklist'', py ''Bring sunscreen and a hat for the beach.''),
          (py ''Travel Tips For Families'', py ''Book early and travel light with kids.'')]
   \<and> is_usable_title plain_db (py ''Travel Tips For Families'') = Inr True
   \<and> 2 \<le> length (split_ws (strip (py ''Travel Tips For Families'')))"
proof -
  note s = long_example_sections [of plain_db None]
  have "(py ''Travel Tips For Families'', py ''Book early and travel light with kids.'')
      \<in> set [(py ''Packing Checklist'', py ''Bring sunscreen and a hat for the beach.''),
          (py ''Travel Tips For Families'', py ''Book early and travel light with kids.'')]"
    by simp
  from detect_sections_titles_usable [OF s this] s show ?thesis
    by (simp only: simp_thms)
qed

theorem detect_sections_blank_witness:
  "isspace 32 \<and> isspace 10 \<and> isspace 9
   \<and> detect_sections plain_db None [32, 10, 9, 32] = Inr []
   \<and> detect_sections plain_db (Some silent_oracle) [32, 10, 9, 32] = Inr []"
proof -
  have s: "isspace 32 \<and> isspace 10 \<and> isspace 9"
    by (simp add: isspace_def whitespace_ranges_def)
  then have b: "\<forall>c\<in>set [32, 10, 9, 32]. isspace c"
    by simp
  from s detect_sections_blank [OF b, of plain_db None]
    detect_sections_blank [OF b, of plain_db "Some silent_oracle"]
  show ?thesis by (simp only: simp_thms)
qed

text \<open>
  C1, as the code has it. On the page of the specification's example \<^verbatim>\<open>detect_sections\<close>
  returns the empty list, with the oracle or without it: the two bodies have 26 and 28
  characters, and a section whose body has fewer than 30 characters is dropped. On a page
  of the same two headings, each followed by one line of body whose trimmed text ends in a
  full stop and has 30 characters or more, it returns exactly two sections, in
  top-to-bottom order, with the titles \<^verbatim>\<open>Packing Checklist\<close> and
  \<^verbatim>\<open>Travel Tips For Families\<close> and the trimmed lines as bodies.
\<close>

theorem example_page_sections:
  "detect_sections U nlp spec_example_page = Inr []
   \<and> (10 \<notin> set body1 \<and> endswith (strip body1) (py ''.'') \<and> 30 \<le> length (strip body1)
      \<and> 10 \<notin> set body2 \<and> endswith (strip body2) (py ''.'') \<and> 30 \<le> length (strip body2)
      \<longrightarrow> detect_sections U nlp (py ''Packing Checklist'' @ [10] @ body1 @ [10]
             @ py ''Travel Tips For Families'' @ [10] @ body2)
           = Inr [(py ''Packing Checklist'', strip body1),
                  (py ''Travel Tips For Families'', strip body2)])"
  using spec_example_sections [of U nlp] two_heading_sections [of body1 body2 U nlp]
  by blast

theorem example_page_sections_witness:
  "10 \<notin> set (py ''Bring sunscreen and a hat for the beach.'')
   \<and> endswith (strip (py ''Bring sunscreen and a hat for the beach.'')) (py ''.'')
   \<and> 30 \<le> length (strip (py ''Bring sunscreen and a hat for the beach.''))
   \<and> 10 \<notin> set (py ''Book early and travel light with kids.'')
   \<and> endswith (strip (py ''Book early and travel light with kids.'')) (py ''.'')
   \<and> 30 \<le> length (strip (py ''Book early and travel light with kids.''))
   \<and> detect_sections plain_db None
        (py ''Packing Checklist'' @ [10] @ py ''Bring sunscreen and a hat for the beach.'' @ [10]
         @ py ''Travel Tips For Families'' @ [10] @ py ''Book early and travel light with kids.'')
       = Inr [(py ''Packing Checklist'', py ''Bring sunscreen and a hat for the beach.''),
              (py ''Travel Tips For Families'', py ''Book early and travel light with kids.'')]"
proof -
  have s1: "strip (py ''Bring sunscreen and a hat for the beach.'')
      = py ''Bring sunscreen and a hat for the beach.''"
    by (simp add: str_eval)
  have s2: "strip (py ''Book early and travel light with kids.'')
      = py ''Book early and travel light with kids.''"
    by (simp add: str_eval)
  have n1: "10 \<notin> set (py ''Bring sunscreen and a hat for the beach.'')"
    by (simp add: py_def)
  have n2: "10 \<notin> set (py ''Book early and travel light with kids.'')"
    by (simp add: py_def)
  have e1: "endswith (py ''Bring sunscreen and a hat for the beach.'') (py ''.'')"
    by (simp add: str_eval)
  have e2: "endswith (py ''Book early and travel light with kids.'') (py ''.'')"
    by (simp add: str_eval)
  have l1: "30 \<le> length (py ''Bring sunscreen and a hat for the beach.'')"
    by (simp add: py_def)
  have l2: "30 \<le> length (py ''Book early and travel light with kids.'')"
    by (simp add: py_def)
  from example_page_sections [of plain_db None "py ''Bring sunscreen and a hat for the beach.''"
      "py ''Book early and travel light with kids.''", THEN conjunct2]
    n1 e1 l1 n2 e2 l2
  have "detect_sections plain_db None
        (py ''Packing Checklist'' @ [10] @ py ''Bring sunscreen and a hat for the beach.'' @ [10]
         @ py ''Travel Tips For Families'' @ [10] @ py ''Book early and travel light with kids.'')
       = Inr [(py ''Packing Checklist'', py ''Bring sunscreen and a hat for the beach.''),
              (py ''Travel Tips For Families'', py ''Book early and travel light with kids.'')]"
    unfolding s1 s2 by blast
  with n1 e1 l1 n2 e2 l2 show ?thesis
    unfolding s1 s2 by (simp only: simp_thms)
qed

theorem example_page_counterexample:
  "detect_sections plain_db None spec_example_page = Inr []
   \<and> detect_sections plain_db None spec_example_page \<noteq>
       Inr [(py ''Packing Checklist'', py ''Bring sunscreen and a hat.''),
            (py ''Travel Tips For Families'', py ''Book early and travel light.'')]"
  by (simp add: spec_example_sections)

lemma max_by_len_fold:
  "foldl (\<lambda>best y. if length best < length y then y else best) x rest \<in> set (x # rest)
   \<and> (\<forall>y\<in>set (x # rest).
        length y \<le> length (foldl (\<lambda>best y. if length best < length y then y else best) x rest))"
proof (induction rest arbitrary: x)
  case Nil
  then show ?case by simp
next
  case (Cons z rest)
  let ?f = "\<lambda>best y :: str. if length best < length y then y else best"
  show ?case
  proof (cases "length x < length z")
    case True
    with Cons [of z] show ?thesis by auto
  next
    case False
    with Cons [of x] show ?thesis by auto
  qed
qed

lemma max_by_len_longest:
  assumes "max_by_len xs = Inr best"
  shows "best \<in> set xs \<and> (\<forall>x\<in>set xs. length x \<le> length best)"
proof (cases xs)
  case Nil
  with assms show ?thesis by (simp add: max_by_len_def)
next
  case (Cons x rest)
  with assms max_by_len_fold [of x rest] show ?thesis
    by (simp add: max_by_len_def)
qed

text \<open>
  C2, as the code has it. The fallback ladder is entered only with the oracle. Without the
  oracle a page whose primary pass yields no section gets the empty list. With the oracle,
  on a page whose primary pass yields no section and whose text is not blank, when some
  line has ten characters or more, is not a bullet glyph, starts with an upper-case letter
  and contains a space, and the longest such line passes the usable-title test, the result
  is exactly one section, with that line as title and the trimmed page text as body.
\<close>

theorem fallback_needs_oracle:
  "(primary_sections U None page_text = Inr [] \<longrightarrow> detect_sections U None page_text = Inr [])
   \<and> (primary_sections U (Some m) page_text = Inr [] \<and> strip page_text \<noteq> []
        \<and> lines_non_bullet U (page_lines page_text) \<noteq> []
        \<and> max_by_len (lines_non_bullet U (page_lines page_text)) = Inr best
        \<and> is_usable_title U best = Inr True
      \<longrightarrow> best \<in> set (lines_non_bullet U (page_lines page_text))
          \<and> (\<forall>l\<in>set (lines_non_bullet U (page_lines page_text)). length l \<le> length best)
          \<and> detect_sections U (Some m) page_text = Inr [(best, strip page_text)])"
proof (intro conjI impI)
  assume "primary_sections U None page_text = Inr []"
  then show "detect_sections U None page_text = Inr []"
    by (simp add: detect_sections_def)
next
  assume a: "primary_sections U (Some m) page_text = Inr [] \<and> strip page_text \<noteq> []
        \<and> lines_non_bullet U (page_lines page_text) \<noteq> []
        \<and> max_by_len (lines_non_bullet U (page_lines page_text)) = Inr best
        \<and> is_usable_title U best = Inr True"
  then show "best \<in> set (lines_non_bullet U (page_lines page_text))"
    using max_by_len_longest by blast
next
  assume a: "primary_sections U (Some m) page_text = Inr [] \<and> strip page_text \<noteq> []
        \<and> lines_non_bullet U (page_lines page_text) \<noteq> []
        \<and> max_by_len (lines_non_bullet U (page_lines page_text)) = Inr best
        \<and> is_usable_title U best = Inr True"
  then show "\<forall>l\<in>set (lines_non_bullet U (page_lines page_text)). length l \<le> length best"
    using max_by_len_longest by blast
next
  assume a: "primary_sections U (Some m) page_text = Inr [] \<and> strip page_text \<noteq> []
        \<and> lines_non_bullet U (page_lines page_text) \<noteq> []
        \<and> max_by_len (lines_non_bullet U (page_lines page_text)) = Inr best
        \<and> is_usable_title U best = Inr True"
  then have "fallback U m page_text = Inr [(best, strip page_text)]"
    by (simp add: fallback_def Let_def)
  with a show "detect_sections U (Some m) page_text = Inr [(best, strip page_text)]"
    by (simp add: detect_sections_def)
qed

theorem fallback_needs_oracle_witness:
  "primary_sections plain_db None heading_only_page = Inr []
   \<and> detect_sections plain_db None heading_only_page = Inr []
   \<and> primary_sections plain_db (Some silent_oracle) heading_only_page = Inr []
   \<and> strip heading_only_page \<noteq> []
   \<and> lines_non_bullet plain_db (page_lines heading_only_page) \<noteq> []
   \<and> max_by_len (lines_non_bullet plain_db (page_lines heading_only_page))
       = Inr (py ''Packing Checklist'')
   \<and> is_usable_title plain_db (py ''Packing Checklist'') = Inr True
   \<and> detect_sections plain_db (Some silent_oracle) heading_only_page
       = Inr [(py ''Packing Checklist'', strip heading_only_page)]"
proof -
  have 1: "primary_sections plain_db None heading_only_page = Inr []"
    by (rule heading_only_primary)
  have 2: "primary_sections plain_db (Some silent_oracle) heading_only_page = Inr []"
    by (rule heading_only_primary)
  have 3: "strip heading_only_page \<noteq> []"
    by (simp add: heading_only_strip py_def)
  have 4: "lines_non_bullet plain_db (page_lines heading_only_page) \<noteq> []"
    by (simp add: heading_only_candidates)
  have 5: "max_by_len (lines_non_bullet plain_db (page_lines heading_only_page))
       = Inr (py ''Packing Checklist'')"
    by (simp add: heading_only_candidates heading_only_best)
  have 6: "is_usable_title plain_db (py ''Packing Checklist'') = Inr True"
    by (rule usable_Packing_Checklist)
  from fallback_needs_oracle [of plain_db heading_only_page silent_oracle "py ''Packing Checklist''"]
    1 2 3 4 5 6
  show ?thesis by (simp only: simp_thms)
qed

theorem fallback_without_oracle_counterexample:
  "primary_sections plain_db None heading_only_page = Inr []
   \<and> strip heading_only_page \<noteq> []
   \<and> lines_non_bullet plain_db (page_lines heading_only_page) = [py ''Packing Checklist'']
   \<and> max_by_len [py ''Packing Checklist''] = Inr (py ''Packing Checklist'')
   \<and> 10 \<le> length (py ''Packing Checklist'')
   \<and> is_usable_title plain_db (py ''Packing Checklist'') = Inr True
   \<and> detect_sections plain_db None heading_only_page = Inr []
   \<and> detect_sections plain_db None heading_only_page
       \<noteq> Inr [(py ''Packing Checklist'', strip heading_only_page)]"
proof -
  have "strip heading_only_page \<noteq> []"
    by (simp add: heading_only_strip py_def)
  moreover have "10 \<le> length (py ''Packing Checklist'')"
    by (simp add: py_def)
  ultimately show ?thesis
    by (simp add: heading_only_primary heading_only_candidates heading_only_best
        usable_Packing_Checklist heading_only_without_oracle)
qed

section \<open>The snippet extractor\<close>

lemma strip_Nil_blank: "strip s = [] \<Longrightarrow> \<forall>c\<in>set s. isspace c"
proof -
  assume "strip s = []"
  then have a: "\<forall>c\<in>set (dropWhile isspace s). isspace c"
    by (simp add: strip_def)
  have "dropWhile isspace s = []"
  proof (rule ccontr)
    assume n: "dropWhile isspace s \<noteq> []"
    then have "\<not> isspace (hd (dropWhile isspace s))" by (rule hd_dropWhile)
    with a n show False by (metis hd_in_set)
  qed
  then show ?thesis by simp
qed

lemma candidates_not_blank:
  assumes "candidate_sentences section_text \<noteq> []"
  shows "strip section_text \<noteq> []"
proof
  assume "strip section_text = []"
  then have b: "\<forall>c\<in>set section_text. isspace c" by (rule strip_Nil_blank)
  from assms obtain p where p: "p \<in> set (split_on (\<lambda>c. c = 46 \<or> c = 10) section_text)"
    and l: "10 < length (strip p)"
    by (auto simp: candidate_sentences_def filter_empty_conv)
  from split_on_set [OF p] b have "\<forall>c\<in>set p. isspace c" by auto
  then have "strip p = []" by (rule strip_blank)
  with l show False by simp
qed

lemma snippet_with_sentences:
  assumes "candidate_sentences section_text = first_sentence # others"
  shows "extract_refined_snippet U nlp section_text query_vector persona max_length =
     (if annotate persona
           (assemble (rank_sentences U nlp query_vector persona (first_sentence # others))
              max_length []) \<noteq> []
      then strip (annotate persona
           (assemble (rank_sentences U nlp query_vector persona (first_sentence # others))
              max_length []))
      else slice_to first_sentence max_length)"
proof -
  from assms have "strip section_text \<noteq> []"
    using candidates_not_blank [of section_text] by simp
  with assms show ?thesis
    by (simp add: extract_refined_snippet_def Let_def)
qed

lemma snippet_without_sentences:
  assumes "strip section_text \<noteq> []" and "candidate_sentences section_text = []"
  shows "extract_refined_snippet U nlp section_text query_vector persona max_length
     = slice_to section_text max_length"
  using assms by (simp add: extract_refined_snippet_def)

lemma annotate_Nil: "annotate persona [] = []"
  by (simp add: annotate_def)

lemma annotate_no_persona: "annotate [] result = result"
  by (simp add: annotate_def)

lemma snippet_empty_buffer:
  assumes "candidate_sentences section_text = first_sentence # others"
    and "assemble (rank_sentences U nlp query_vector persona (first_sentence # others))
           max_length [] = []"
  shows "extract_refined_snippet U nlp section_text query_vector persona max_length
     = slice_to first_sentence max_length"
  by (simp add: snippet_with_sentences [OF assms(1)] assms(2) annotate_Nil)

lemma slice_to_take: "0 \<le> n \<Longrightarrow> slice_to s n = take (nat n) s"
  by (simp add: slice_to_def)

lemma length_slice_to: "0 \<le> n \<Longrightarrow> int (length (slice_to s n)) \<le> n"
  by (simp add: slice_to_def)

lemma length_strip: "length (strip s) \<le> length s"
proof -
  have "length (strip s) \<le> length (dropWhile isspace s)"
    unfolding strip_def by (metis length_dropWhile_le length_rev)
  also have "\<dots> \<le> length s" by (rule length_dropWhile_le)
  finally show ?thesis .
qed

lemma length_assemble:
  "int (length result) \<le> m \<Longrightarrow> int (length (assemble ranked m result)) \<le> m"
proof (induction ranked arbitrary: result)
  case Nil
  then show ?case by simp
next
  case (Cons sent rest)
  show ?case
  proof (cases "int (length result) + int (length sent) + 2 \<le> m")
    case True
    then have "int (length (result @ sent @ py ''. '')) \<le> m" by (simp add: py_def)
    from Cons.IH [OF this] True show ?thesis by simp
  next
    case False
    with Cons.prems show ?thesis by simp
  qed
qed

text \<open>The loop appends while the next sentence fits and stops at the first that does not.\<close>

lemma assemble_greedy:
  "\<exists>n\<le>length ranked.
     assemble ranked m result = result @ concat (map (\<lambda>s. s @ py ''. '') (take n ranked))
     \<and> (\<forall>i<n. int (length (result @ concat (map (\<lambda>s. s @ py ''. '') (take i ranked))))
                 + int (length (ranked ! i)) + 2 \<le> m)
     \<and> (n < length ranked \<longrightarrow>
          \<not> int (length (result @ concat (map (\<lambda>s. s @ py ''. '') (take n ranked))))
              + int (length (ranked ! n)) + 2 \<le> m)"
proof (induction ranked arbitrary: result)
  case Nil
  then show ?case by simp
next
  case (Cons sent rest)
  let ?sep = "\<lambda>s. s @ py ''. ''"
  show ?case
  proof (cases "int (length result) + int (length sent) + 2 \<le> m")
    case True
    from Cons.IH [of "result @ sent @ py ''. ''"] obtain n where
      n: "n \<le> length rest"
      and eq: "assemble rest m (result @ sent @ py ''. '')
           = (result @ sent @ py ''. '') @ concat (map ?sep (take n rest))"
      and fit: "\<forall>i<n. int (length ((result @ sent @ py ''. '') @ concat (map ?sep (take i rest))))
                 + int (length (rest ! i)) + 2 \<le> m"
      and stop: "n < length rest \<longrightarrow>
          \<not> int (length ((result @ sent @ py ''. '') @ concat (map ?sep (take n rest))))
              + int (length (rest ! n)) + 2 \<le> m"
      by blast
    have 1: "Suc n \<le> length (sent # rest)" using n by simp
    have 2: "assemble (sent # rest) m result
        = result @ concat (map ?sep (take (Suc n) (sent # rest)))"
      using True eq by simp
    have 3: "int (length (result @ concat (map ?sep (take i (sent # rest)))))
                 + int (length ((sent # rest) ! i)) + 2 \<le> m" if "i < Suc n" for i
    proof (cases i)
      case 0
      with True show ?thesis by simp
    next
      case (Suc j)
      with that have "j < n" by simp
      with fit Suc show ?thesis by simp
    qed
    have 4: "Suc n < length (sent # rest) \<longrightarrow>
          \<not> int (length (result @ concat (map ?sep (take (Suc n) (sent # rest)))))
              + int (length ((sent # rest) ! Suc n)) + 2 \<le> m"
      using stop by simp
    from 1 2 3 4 show ?thesis by blast
  next
    case False
    then have "0 \<le> length (sent # rest)
      \<and> assemble (sent # rest) m result = result @ concat (map ?sep (take 0 (sent # rest)))
      \<and> (\<forall>i<0. int (length (result @ concat (map ?sep (take i (sent # rest)))))
                 + int (length ((sent # rest) ! i)) + 2 \<le> m)
      \<and> (0 < length (sent # rest) \<longrightarrow>
          \<not> int (length (result @ concat (map ?sep (take 0 (sent # rest)))))
              + int (length ((sent # rest) ! 0)) + 2 \<le> m)"
      by simp
    then show ?thesis by blast
  qed
qed

lemma snippet_length:
  assumes "0 \<le> max_length"
  shows "int (length (extract_refined_snippet U nlp section_text query_vector [] max_length))
           \<le> max_length"
proof (cases "strip section_text = []")
  case True
  with assms show ?thesis by (simp add: extract_refined_snippet_def)
next
  case False
  show ?thesis
  proof (cases "candidate_sentences section_text")
    case Nil
    with False assms show ?thesis
      by (simp add: snippet_without_sentences length_slice_to)
  next
    case (Cons first_sentence others)
    let ?buffer = "assemble (rank_sentences U nlp query_vector [] (first_sentence # others))
                     max_length []"
    from assms have b: "int (length ?buffer) \<le> max_length"
      by (intro length_assemble) simp
    have "int (length (strip ?buffer)) \<le> int (length ?buffer)"
      using length_strip [of ?buffer] by simp
    with b assms show ?thesis
      by (simp add: snippet_with_sentences [OF Cons] annotate_no_persona length_slice_to)
  qed
qed

text \<open>Prefixes survive the final \<^verbatim>\<open>strip()\<close>.\<close>

lemma strip_keeps_prefix:
  assumes "p \<noteq> []" and "\<not> isspace (hd p)" and "c \<in> set b" and "\<not> isspace c"
  shows "strip (p @ b) = p @ rev (dropWhile isspace (rev b))"
proof -
  from assms(1,2) have 1: "dropWhile isspace (p @ b) = p @ b"
    by (cases p) auto
  from assms(3,4) have 2: "dropWhile isspace (rev b @ rev p) = dropWhile isspace (rev b) @ rev p"
    by (intro dropWhile_append1 [of c]) auto
  show ?thesis by (simp add: strip_def 1 2)
qed

lemma buffer_has_full_stop:
  assumes "assemble ranked m [] \<noteq> []"
  shows "46 \<in> set (assemble ranked m [])"
proof -
  from assemble_prefix [of ranked m "[]"] obtain n where
    n: "assemble ranked m [] = concat (map (\<lambda>s. s @ py ''. '') (take n ranked))"
    by auto
  with assms obtain s where s: "s \<in> set (take n ranked)"
    by (cases "take n ranked") auto
  have "46 \<in> set (s @ py ''. '')" by (simp add: py_def)
  with s have "46 \<in> \<Union> (set ` (\<lambda>s. s @ py ''. '') ` set (take n ranked))"
    by blast
  then have "46 \<in> set (concat (map (\<lambda>s. s @ py ''. '') (take n ranked)))"
    by (simp only: set_concat set_map)
  with n show ?thesis by simp
qed

lemma not_isspace_46: "\<not> isspace 46"
  by (simp add: isspace_def whitespace_ranges_def)

lemma contains_not_Nil: "contains persona sub \<Longrightarrow> sub \<noteq> [] \<Longrightarrow> persona \<noteq> []"
  by (auto simp: contains_def)

lemma snippet_annotated:
  assumes "candidate_sentences section_text = first_sentence # others"
    and "assemble (rank_sentences U nlp query_vector persona (first_sentence # others))
           max_length [] \<noteq> []"
    and "annotate persona
           (assemble (rank_sentences U nlp query_vector persona (first_sentence # others))
              max_length [])
         = p @ assemble (rank_sentences U nlp query_vector persona (first_sentence # others))
              max_length []"
    and "p \<noteq> []" and "\<not> isspace (hd p)"
  shows "startswith (extract_refined_snippet U nlp section_text query_vector persona max_length) p"
proof -
  let ?buffer = "assemble (rank_sentences U nlp query_vector persona (first_sentence # others))
                   max_length []"
  from assms(2) have d: "46 \<in> set ?buffer" by (rule buffer_has_full_stop)
  have "strip (p @ ?buffer) = p @ rev (dropWhile isspace (rev ?buffer))"
    using assms(4,5) d not_isspace_46 by (rule strip_keeps_prefix)
  with assms(2,3,4) show ?thesis
    by (simp add: snippet_with_sentences [OF assms(1)] startswith_def)
qed

subsection \<open>Examples\<close>

lemma rank_single: "rank_sentences U nlp query_vector persona [s] = [s]"
  by (simp add: rank_sentences_def sorted_reverse_def Let_def split: option.split)

lemma forms_candidates:
  "candidate_sentences (py ''Employee onboarding forms'') = [py ''Employee onboarding forms'']"
  by (simp add: candidate_sentences_def str_eval)

lemma forms_buffer_10: "assemble [py ''Employee onboarding forms''] 10 [] = []"
  by (simp add: py_def)

lemma forms_buffer_320:
  "assemble [py ''Employee onboarding forms''] 320 [] = py ''Employee onboarding forms. ''"
  by (simp add: py_def)

lemma forms_snippet_10:
  "extract_refined_snippet U nlp (py ''Employee onboarding forms'') query_vector persona 10
     = py ''Employee o''"
proof -
  have "extract_refined_snippet U nlp (py ''Employee onboarding forms'') query_vector persona 10
      = slice_to (py ''Employee onboarding forms'') 10"
    by (rule snippet_empty_buffer [OF forms_candidates]) (simp only: rank_single forms_buffer_10)
  then show ?thesis by (simp add: slice_to_def py_def)
qed

lemma forms_snippet_320:
  "extract_refined_snippet U nlp (py ''Employee onboarding forms'') query_vector persona 320
     = (if annotate persona (py ''Employee onboarding forms. '') \<noteq> []
        then strip (annotate persona (py ''Employee onboarding forms. ''))
        else slice_to (py ''Employee onboarding forms'') 320)"
  by (simp only: snippet_with_sentences [OF forms_candidates] rank_single forms_buffer_320)

lemma forms_HR:
  "annotate (py ''HR Manager'') (py ''Employee onboarding forms. '')
     = py ''For HR professionals: Employee onboarding forms. ''"
  by (simp add: annotate_def str_eval)

lemma forms_Travel:
  "annotate (py ''Travel Blogger'') (py ''Employee onboarding forms. '')
     = py ''Travel planner note: Employee onboarding forms. ''"
  by (simp add: annotate_def str_eval)

lemma forms_HR_Travel:
  "annotate (py ''HR Travel Desk'') (py ''Employee onboarding forms. '')
     = py ''Travel planner note: For HR professionals: Employee onboarding forms. ''"
  by (simp add: annotate_def str_eval)

lemma forms_snippet_HR:
  "extract_refined_snippet U nlp (py ''Employee onboarding forms'') query_vector (py ''HR Manager'') 320
     = py ''For HR professionals: Employee onboarding forms.''"
  unfolding forms_snippet_320 forms_HR by (simp add: str_eval)

lemma forms_snippet_Travel:
  "extract_refined_snippet U nlp (py ''Employee onboarding forms'') query_vector
     (py ''Travel Blogger'') 320
     = py ''Travel planner note: Employee onboarding forms.''"
  unfolding forms_snippet_320 forms_Travel by (simp add: str_eval)

lemma forms_snippet_HR_Travel:
  "extract_refined_snippet U nlp (py ''Employee onboarding forms'') query_vector
     (py ''HR Travel Desk'') 320
     = py ''Travel planner note: For HR professionals: Employee onboarding forms.''"
  unfolding forms_snippet_320 forms_HR_Travel by (simp add: str_eval)

lemma short_candidates: "candidate_sentences (py ''Sign here'') = []"
  by (simp add: candidate_sentences_def str_eval)

lemma short_snippet:
  "extract_refined_snippet U nlp (py ''Sign here'') query_vector persona 320 = py ''Sign here''"
proof -
  have "strip (py ''Sign here'') \<noteq> []" by (simp add: str_eval)
  then show ?thesis
    by (simp add: snippet_without_sentences short_candidates) (simp add: slice_to_def py_def)
qed

lemma visa_candidates:
  "candidate_sentences (py ''Bring warm clothes today'' @ [10] @ py ''Visa forms needed'')
     = [py ''Bring warm clothes today'', py ''Visa forms needed'']"
  by (simp add: candidate_sentences_def str_eval)

lemma visa_query: "set (split_ws (lower U (py ''visa''))) = {py ''visa''}"
  by (simp add: str_eval split_ws.simps)

lemma visa_overlap_0: "word_overlap U {py ''visa''} (py ''Bring warm clothes today'') = 0"
  by (simp add: word_overlap_def str_eval split_ws.simps)

lemma visa_overlap_1: "word_overlap U {py ''visa''} (py ''Visa forms needed'') = 1"
  by (simp add: word_overlap_def str_eval split_ws.simps)

lemma visa_ranked:
  "rank_sentences U None (py ''visa'') persona
     [py ''Bring warm clothes today'', py ''Visa forms needed'']
     = [py ''Visa forms needed'', py ''Bring warm clothes today'']"
  by (simp add: rank_sentences_def sorted_reverse_def visa_query visa_overlap_0 visa_overlap_1)

lemma visa_buffer:
  "assemble [py ''Visa forms needed'', py ''Bring warm clothes today''] 5 [] = []"
  by (simp add: py_def)

lemma visa_snippet:
  "extract_refined_snippet U None
     (py ''Bring warm clothes today'' @ [10] @ py ''Visa forms needed'') (py ''visa'') persona 5
     = py ''Bring''"
proof -
  have "extract_refined_snippet U None
     (py ''Bring warm clothes today'' @ [10] @ py ''Visa forms needed'') (py ''visa'') persona 5
     = slice_to (py ''Bring warm clothes today'') 5"
    by (rule snippet_empty_buffer [OF visa_candidates]) (simp only: visa_ranked visa_buffer)
  then show ?thesis by (simp add: slice_to_def py_def)
qed

lemma trip_candidates:
  "candidate_sentences (py ''Pack light for the trip. Bring sunscreen and a hat.'')
     = [py ''Pack light for the trip'', py ''Bring sunscreen and a hat'']"
  by (simp add: candidate_sentences_def str_eval)

lemma overlap_no_query: "word_overlap U (set (split_ws (lower U []))) s = 0"
proof -
  have "split_ws (lower U []) = []"
    by (simp add: lower_def split_ws_Nil)
  then show ?thesis by (simp add: word_overlap_def)
qed

lemma rank_no_query: "rank_sentences U None [] persona [a, b] = [a, b]"
  by (simp add: rank_sentences_def sorted_reverse_def overlap_no_query)

lemma trip_snippet:
  "extract_refined_snippet U None (py ''Pack light for the trip. Bring sunscreen and a hat.'')
     [] [] 320 = py ''Pack light for the trip. Bring sunscreen and a hat.''"
proof -
  have "assemble [py ''Pack light for the trip'', py ''Bring sunscreen and a hat''] 320 []
      = py ''Pack light for the trip. Bring sunscreen and a hat. ''"
    by (simp add: py_def)
  then show ?thesis
    by (simp only: snippet_with_sentences [OF trip_candidates] rank_no_query annotate_no_persona)
      (simp add: str_eval)
qed

lemma long_candidates:
  "candidate_sentences (py ''Hello world, this is long enough'')
     = [py ''Hello world, this is long enough'']"
  by (simp add: candidate_sentences_def str_eval)

lemma long_snippet:
  "extract_refined_snippet U nlp (py ''Hello world, this is long enough'') query_vector [] (- 1)
     = py ''Hello world, this is long enoug''"
proof -
  have "extract_refined_snippet U nlp (py ''Hello world, this is long enough'') query_vector [] (- 1)
     = slice_to (py ''Hello world, this is long enough'') (- 1)"
    by (rule snippet_empty_buffer [OF long_candidates]) (simp add: rank_single py_def)
  then show ?thesis by (simp add: slice_to_def py_def)
qed

subsection \<open>Results on the snippet extractor\<close>

text \<open>
  C3, as the code has it. When the body has a candidate sentence and the greedy loop
  leaves the buffer empty, \<^verbatim>\<open>extract_refined_snippet\<close> returns
  \<^verbatim>\<open>sentences[0][:max_length]\<close>: the truncation of the first candidate sentence in the
  order of the body, which need not be the top-ranked one. For \<open>max_length\<close> of zero or
  more these are its first \<open>max_length\<close> characters.
\<close>

theorem empty_buffer_first_sentence:
  assumes "candidate_sentences section_text = first_sentence # others"
    and "assemble (rank_sentences U nlp query_vector persona (first_sentence # others))
           max_length [] = []"
  shows "extract_refined_snippet U nlp section_text query_vector persona max_length
           = slice_to first_sentence max_length
     \<and> (0 \<le> max_length \<longrightarrow>
          extract_refined_snippet U nlp section_text query_vector persona max_length
            = take (nat max_length) first_sentence)"
  using snippet_empty_buffer [OF assms] by (simp add: slice_to_take)

theorem empty_buffer_first_sentence_witness:
  "candidate_sentences (py ''Bring warm clothes today'' @ [10] @ py ''Visa forms needed'')
     = [py ''Bring warm clothes today'', py ''Visa forms needed'']
   \<and> assemble (rank_sentences plain_db None (py ''visa'') []
        [py ''Bring warm clothes today'', py ''Visa forms needed'']) 5 [] = []
   \<and> extract_refined_snippet plain_db None
        (py ''Bring warm clothes today'' @ [10] @ py ''Visa forms needed'') (py ''visa'') [] 5
       = take 5 (py ''Bring warm clothes today'')"
proof -
  have b: "assemble (rank_sentences plain_db None (py ''visa'') []
        [py ''Bring warm clothes today'', py ''Visa forms needed'']) 5 [] = []"
    by (simp only: visa_ranked visa_buffer)
  from empty_buffer_first_sentence [OF visa_candidates b, THEN conjunct2]
  have "extract_refined_snippet plain_db None
        (py ''Bring warm clothes today'' @ [10] @ py ''Visa forms needed'') (py ''visa'') [] 5
       = take 5 (py ''Bring warm clothes today'')"
    by simp
  with visa_candidates b show ?thesis by (simp only: simp_thms)
qed

theorem top_ranked_counterexample:
  "candidate_sentences (py ''Bring warm clothes today'' @ [10] @ py ''Visa forms needed'')
     = [py ''Bring warm clothes today'', py ''Visa forms needed'']
   \<and> rank_sentences plain_db None (py ''visa'') []
        [py ''Bring warm clothes today'', py ''Visa forms needed'']
       = [py ''Visa forms needed'', py ''Bring warm clothes today'']
   \<and> assemble [py ''Visa forms needed'', py ''Bring warm clothes today''] 5 [] = []
   \<and> extract_refined_snippet plain_db None
        (py ''Bring warm clothes today'' @ [10] @ py ''Visa forms needed'') (py ''visa'') [] 5
       = py ''Bring''
   \<and> take 5 (py ''Visa forms needed'') = py ''Visa ''
   \<and> py ''Bring'' \<noteq> py ''Visa ''"
proof -
  have "take 5 (py ''Visa forms needed'') = py ''Visa ''" by (simp add: py_def)
  moreover have "py ''Bring'' \<noteq> py ''Visa ''" by (simp add: py_def)
  ultimately show ?thesis
    by (simp only: visa_candidates visa_ranked visa_buffer visa_snippet simp_thms)
qed

text \<open>
  C4, as the code has it. The annotation is added only to a buffer that is not empty. With
  a candidate sentence and a non-empty buffer, the result begins with
  \<^verbatim>\<open>Travel planner note: \<close> when the persona contains \<^verbatim>\<open>Travel\<close>, with
  \<^verbatim>\<open>For HR professionals: \<close> when it contains \<^verbatim>\<open>HR\<close> and not \<^verbatim>\<open>Travel\<close>, and with
  \<^verbatim>\<open>Travel planner note: For HR professionals: \<close> when it contains both. A snippet that
  comes from a truncation, with an empty buffer or with no candidate sentence, has no
  annotation, whatever the persona is.
\<close>

theorem persona_annotation:
  "(candidate_sentences section_text = first_sentence # others
    \<and> assemble (rank_sentences U nlp query_vector persona (first_sentence # others))
          max_length [] \<noteq> []
    \<longrightarrow> (contains persona (py ''Travel'')
          \<longrightarrow> startswith
                (extract_refined_snippet U nlp section_text query_vector persona max_length)
                (py ''Travel planner note: ''))
      \<and> (contains persona (py ''HR'') \<and> \<not> contains persona (py ''Travel'')
          \<longrightarrow> startswith
                (extract_refined_snippet U nlp section_text query_vector persona max_length)
                (py ''For HR professionals: ''))
      \<and> (contains persona (py ''HR'') \<and> contains persona (py ''Travel'')
          \<longrightarrow> startswith
                (extract_refined_snippet U nlp section_text query_vector persona max_length)
                (py ''Travel planner note: For HR professionals: '')))
   \<and> (candidate_sentences section_text = first_sentence # others
      \<and> assemble (rank_sentences U nlp query_vector persona (first_sentence # others))
            max_length [] = []
      \<longrightarrow> extract_refined_snippet U nlp section_text query_vector persona max_length
            = slice_to first_sentence max_length)
   \<and> (strip section_text \<noteq> [] \<and> candidate_sentences section_text = []
      \<longrightarrow> extract_refined_snippet U nlp section_text query_vector persona max_length
            = slice_to section_text max_length)"
proof -
  let ?buffer = "assemble (rank_sentences U nlp query_vector persona (first_sentence # others))
                   max_length []"
  let ?snippet = "extract_refined_snippet U nlp section_text query_vector persona max_length"
  have travel: "startswith ?snippet (py ''Travel planner note: '')"
    if c: "candidate_sentences section_text = first_sentence # others" and b: "?buffer \<noteq> []"
      and t: "contains persona (py ''Travel'')" and h: "\<not> contains persona (py ''HR'')"
  proof -
    from t have "persona \<noteq> []" by (rule contains_not_Nil) (simp add: py_def)
    with b t h have "annotate persona ?buffer = py ''Travel planner note: '' @ ?buffer"
      by (simp add: annotate_def)
    with c b show ?thesis
      by (rule snippet_annotated) (simp_all add: py_def isspace_def whitespace_ranges_def)
  qed
  have both: "startswith ?snippet (py ''Travel planner note: For HR professionals: '')"
    if c: "candidate_sentences section_text = first_sentence # others" and b: "?buffer \<noteq> []"
      and t: "contains persona (py ''Travel'')" and h: "contains persona (py ''HR'')"
  proof -
    from t have "persona \<noteq> []" by (rule contains_not_Nil) (simp add: py_def)
    with b t h have "annotate persona ?buffer
        = py ''Travel planner note: For HR professionals: '' @ ?buffer"
      by (simp add: annotate_def py_def)
    with c b show ?thesis
      by (rule snippet_annotated) (simp_all add: py_def isspace_def whitespace_ranges_def)
  qed
  have hr: "startswith ?snippet (py ''For HR professionals: '')"
    if c: "candidate_sentences section_text = first_sentence # others" and b: "?buffer \<noteq> []"
      and t: "\<not> contains persona (py ''Travel'')" and h: "contains persona (py ''HR'')"
  proof -
    from h have "persona \<noteq> []" by (rule contains_not_Nil) (simp add: py_def)
    with b t h have "annotate persona ?buffer = py ''For HR professionals: '' @ ?buffer"
      by (simp add: annotate_def)
    with c b show ?thesis
      by (rule snippet_annotated) (simp_all add: py_def isspace_def whitespace_ranges_def)
  qed
  have shorter: "startswith ?snippet (py ''Travel planner note: '')"
    if "startswith ?snippet (py ''Travel planner note: For HR professionals: '')"
  proof -
    have "prefix (py ''Travel planner note: '') (py ''Travel planner note: For HR professionals: '')"
      by (simp add: py_def)
    then show ?thesis
      using that unfolding startswith_def by (rule prefix_order.trans)
  qed
  show ?thesis
    using travel both hr shorter snippet_empty_buffer [of section_text first_sentence others U nlp
        query_vector persona max_length]
      snippet_without_sentences [of section_text U nlp query_vector persona max_length]
    by blast
qed

theorem persona_annotation_witness:
  "candidate_sentences (py ''Employee onboarding forms'') = [py ''Employee onboarding forms'']
   \<and> assemble (rank_sentences plain_db None [] (py ''HR Manager'')
        [py ''Employee onboarding forms'']) 320 [] \<noteq> []
   \<and> contains (py ''HR Manager'') (py ''HR'') \<and> \<not> contains (py ''HR Manager'') (py ''Travel'')
   \<and> extract_refined_snippet plain_db None (py ''Employee onboarding forms'') []
        (py ''HR Manager'') 320 = py ''For HR professionals: Employee onboarding forms.''
   \<and> startswith
        (extract_refined_snippet plain_db None (py ''Employee onboarding forms'') []
           (py ''HR Manager'') 320) (py ''For HR professionals: '')
   \<and> contains (py ''Travel Blogger'') (py ''Travel'')
   \<and> startswith
        (extract_refined_snippet plain_db None (py ''Employee onboarding forms'') []
           (py ''Travel Blogger'') 320) (py ''Travel planner note: '')
   \<and> contains (py ''HR Travel Desk'') (py ''HR'') \<and> contains (py ''HR Travel Desk'') (py ''Travel'')
   \<and> startswith
        (extract_refined_snippet plain_db None (py ''Employee onboarding forms'') []
           (py ''HR Travel Desk'') 320) (py ''Travel planner note: For HR professionals: '')
   \<and> assemble (rank_sentences plain_db None [] (py ''HR Manager'')
        [py ''Employee onboarding forms'']) 10 [] = []
   \<and> extract_refined_snippet plain_db None (py ''Employee onboarding forms'') []
        (py ''HR Manager'') 10 = slice_to (py ''Employee onboarding forms'') 10
   \<and> strip (py ''Sign here'') \<noteq> [] \<and> candidate_sentences (py ''Sign here'') = []
   \<and> extract_refined_snippet plain_db None (py ''Sign here'') [] (py ''HR Manager'') 320
       = slice_to (py ''Sign here'') 320"
proof -
  note c = forms_candidates
  have b: "assemble (rank_sentences plain_db None [] persona [py ''Employee onboarding forms''])
      320 [] \<noteq> []" for persona
    by (simp only: rank_single forms_buffer_320) (simp add: py_def)
  have e: "assemble (rank_sentences plain_db None [] (py ''HR Manager'')
        [py ''Employee onboarding forms'']) 10 [] = []"
    by (simp only: rank_single forms_buffer_10)
  have h1: "contains (py ''HR Manager'') (py ''HR'')" by (simp add: str_eval)
  have h2: "\<not> contains (py ''HR Manager'') (py ''Travel'')" by (simp add: str_eval)
  have t1: "contains (py ''Travel Blogger'') (py ''Travel'')" by (simp add: str_eval)
  have m1: "contains (py ''HR Travel Desk'') (py ''HR'')" by (simp add: str_eval)
  have m2: "contains (py ''HR Travel Desk'') (py ''Travel'')" by (simp add: str_eval)
  have s1: "strip (py ''Sign here'') \<noteq> []" by (simp add: str_eval)
  note s2 = short_candidates
  note v = forms_snippet_HR [of plain_db None "[]"]
  have r1: "startswith
        (extract_refined_snippet plain_db None (py ''Employee onboarding forms'') []
           (py ''HR Manager'') 320) (py ''For HR professionals: '')"
    using persona_annotation [of "py ''Employee onboarding forms''"
        "py ''Employee onboarding forms''" "[]" plain_db None "[]" "py ''HR Manager''" 320]
      c b h1 h2 by blast
  have r2: "startswith
        (extract_refined_snippet plain_db None (py ''Employee onboarding forms'') []
           (py ''Travel Blogger'') 320) (py ''Travel planner note: '')"
    using persona_annotation [of "py ''Employee onboarding forms''"
        "py ''Employee onboarding forms''" "[]" plain_db None "[]" "py ''Travel Blogger''" 320]
      c b t1 by blast
  have r3: "startswith
        (extract_refined_snippet plain_db None (py ''Employee onboarding forms'') []
           (py ''HR Travel Desk'') 320) (py ''Travel planner note: For HR professionals: '')"
    using persona_annotation [of "py ''Employee onboarding forms''"
        "py ''Employee onboarding forms''" "[]" plain_db None "[]" "py ''HR Travel Desk''" 320]
      c b m1 m2 by blast
  have r4: "extract_refined_snippet plain_db None (py ''Employee onboarding forms'') []
        (py ''HR Manager'') 10 = slice_to (py ''Employee onboarding forms'') 10"
    using persona_annotation [of "py ''Employee onboarding forms''"
        "py ''Employee onboarding forms''" "[]" plain_db None "[]" "py ''HR Manager''" 10]
      c e by blast
  have r5: "extract_refined_snippet plain_db None (py ''Sign here'') [] (py ''HR Manager'') 320
       = slice_to (py ''Sign here'') 320"
    using persona_annotation [of "py ''Sign here''" "[]" "[]" plain_db None "[]"
        "py ''HR Manager''" 320]
      s1 s2 by blast
  from c b [of "py ''HR Manager''"] h1 h2 v r1 t1 r2 m1 m2 r3 e r4 s1 s2 r5
  show ?thesis by (simp only: simp_thms)
qed

theorem persona_fallback_counterexample:
  "contains (py ''HR Manager'') (py ''HR'')
   \<and> extract_refined_snippet plain_db None (py ''Employee onboarding forms'') []
        (py ''HR Manager'') 10 = py ''Employee o''
   \<and> py ''Employee o'' \<noteq> []
   \<and> \<not> startswith (py ''Employee o'') (py ''For HR professionals: '')"
proof -
  have "contains (py ''HR Manager'') (py ''HR'')" by (simp add: str_eval)
  moreover have "py ''Employee o'' \<noteq> []" by (simp add: py_def)
  moreover have "\<not> startswith (py ''Employee o'') (py ''For HR professionals: '')"
    by (simp add: str_eval)
  ultimately show ?thesis
    by (simp only: forms_snippet_10 simp_thms)
qed

text \<open>
  C6, as the code has it. The greedy loop appends a ranked sentence, with its separator of
  two characters, only while the length of the buffer plus the length of the sentence plus
  2 is at most \<open>max_length\<close>, and it stops at the first sentence that does not fit. So for
  every call with an empty persona and a \<open>max_length\<close> of zero or more, the returned text
  has at most \<open>max_length\<close> characters.
\<close>

theorem snippet_bounded:
  "(\<exists>n\<le>length ranked.
      assemble ranked max_length [] = concat (map (\<lambda>s. s @ py ''. '') (take n ranked))
      \<and> (\<forall>i<n. int (length (concat (map (\<lambda>s. s @ py ''. '') (take i ranked))))
                  + int (length (ranked ! i)) + 2 \<le> max_length)
      \<and> (n < length ranked \<longrightarrow>
           \<not> int (length (concat (map (\<lambda>s. s @ py ''. '') (take n ranked))))
               + int (length (ranked ! n)) + 2 \<le> max_length))
   \<and> (0 \<le> max_length \<longrightarrow>
        int (length (extract_refined_snippet U nlp section_text query_vector [] max_length))
          \<le> max_length)"
  using assemble_greedy [of ranked max_length "[]"]
    snippet_length [of max_length U nlp section_text query_vector]
  by simp

theorem snippet_bounded_witness:
  "(0::int) \<le> 320
   \<and> extract_refined_snippet plain_db None
        (py ''Pack light for the trip. Bring sunscreen and a hat.'') [] [] 320
       = py ''Pack light for the trip. Bring sunscreen and a hat.''
   \<and> int (length (extract_refined_snippet plain_db None
        (py ''Pack light for the trip. Bring sunscreen and a hat.'') [] [] 320)) \<le> 320"
proof -
  have z: "(0::int) \<le> 320" by simp
  from snippet_bounded [of "[]" 320 plain_db None
      "py ''Pack light for the trip. Bring sunscreen and a hat.''" "[]", THEN conjunct2] z
  have "int (length (extract_refined_snippet plain_db None
        (py ''Pack light for the trip. Bring sunscreen and a hat.'') [] [] 320)) \<le> 320"
    by (simp only: simp_thms)
  with z trip_snippet [of plain_db] show ?thesis by (simp only: simp_thms)
qed

theorem negative_max_length_counterexample:
  "extract_refined_snippet plain_db None (py ''Hello world, this is long enough'') [] [] (- 1)
     = py ''Hello world, this is long enoug''
   \<and> length (py ''Hello world, this is long enoug'') = 31
   \<and> \<not> int (length (extract_refined_snippet plain_db None
          (py ''Hello world, this is long enough'') [] [] (- 1))) \<le> - 1"
  by (simp only: long_snippet) (simp add: py_def)

end
